theory Spec2Isabelle
  imports Complex_Main "HOL-Library.Multiset"
begin

section \<open>Data model\<close>

text \<open>
  The waypoint record of \<^verbatim>\<open>@/lib/journey-data\<close>, with the fields the components read
  (\<^verbatim>\<open>wp.index\<close>, \<^verbatim>\<open>wp.name\<close>, \<^verbatim>\<open>wp.lat\<close>, \<^verbatim>\<open>wp.lon\<close>, \<^verbatim>\<open>wp.time\<close>, \<^verbatim>\<open>wp.speed\<close>,
  \<^verbatim>\<open>wp.cumDist\<close>, \<^verbatim>\<open>wp.leg\<close>, \<^verbatim>\<open>wp.legColor\<close>).

  The coordinates of a waypoint are finite numbers of the dataset, held as reals. The
  field \<open>time\<close> holds the time value of \<^verbatim>\<open>new Date(wp.time)\<close>, in milliseconds since the
  epoch: the parsing of the ISO string is the runtime's, and the strings of the dataset
  are taken to parse (an Invalid Date has the hour NaN, which \<^verbatim>\<open>isNightUTC\<close> classifies
  as day).
\<close>

record waypoint =
  index :: nat
  name :: string
  lat :: real
  lon :: real
  time :: int
  speed :: real
  cumDist :: real
  leg :: string
  legColor :: string

section \<open>JavaScript numbers\<close>

text \<open>
  A value of type Number: NaN, a finite number, or one of the two infinities. The finite
  values that arithmetic produces are IEEE 754 binary64 numbers; the two zeros are
  identified (no operation of the matcher tells them apart: it neither divides by a
  computed value nor reads a sign).
\<close>

datatype number = NaN | Num real | Infinity | NegInfinity

text \<open>JavaScript's \<^verbatim>\<open><\<close> on numbers: every comparison with NaN is false.\<close>

fun lt :: "number \<Rightarrow> number \<Rightarrow> bool" where
  "lt (Num a) (Num b) = (a < b)"
| "lt (Num a) Infinity = True"
| "lt NegInfinity (Num b) = True"
| "lt NegInfinity Infinity = True"
| "lt _ _ = False"

text \<open>
  A number is truthy (in \<^verbatim>\<open>&&\<close> and \<^verbatim>\<open>if\<close>) when it is neither 0 nor NaN; the infinities
  are truthy.
\<close>

fun truthy :: "number \<Rightarrow> bool" where
  "truthy NaN = False"
| "truthy (Num x) = (x \<noteq> 0)"
| "truthy Infinity = True"
| "truthy NegInfinity = True"

text \<open>
  Rounding to binary64, to nearest with ties to even. \<open>roundEven\<close> rounds a real to the
  nearest integer, a tie to the even one. For \<open>x\<close> with \<open>2^e \<le> \<bar>x\<bar> < 2^(e+1)\<close> the
  binary64 numbers around \<open>x\<close> are the multiples of \<open>ulp x = 2^(e - 52)\<close>, and below
  \<open>2^-1022\<close> (the subnormal range) the multiples of \<open>2^-1074\<close>. A result of magnitude
  \<open>2^1024\<close> or more is an infinity.
\<close>

definition roundEven :: "real \<Rightarrow> int" where
  "roundEven y =
     (let n = \<lfloor>y\<rfloor>; f = y - of_int n
      in if f < 1/2 then n else if 1/2 < f then n + 1 else if even n then n else n + 1)"

definition binade :: "real \<Rightarrow> int" where
  "binade x = max \<lfloor>log 2 \<bar>x\<bar>\<rfloor> (- 1022)"

definition ulp :: "real \<Rightarrow> real" where
  "ulp x = 2 powr (of_int (binade x) - 52)"

definition rnd :: "real \<Rightarrow> number" where
  "rnd x =
     (if x = 0 then Num 0
      else (let r = of_int (roundEven (x / ulp x)) * ulp x
            in if 2 ^ 1024 \<le> \<bar>r\<bar> then (if 0 < x then Infinity else NegInfinity)
               else Num r))"

text \<open>
  The arithmetic operators: on finite operands the exact result, rounded; on the others
  the IEEE 754 rules (\<open>\<infinity> - \<infinity>\<close> and \<open>0 * \<infinity>\<close> are NaN).
\<close>

fun fneg :: "number \<Rightarrow> number" where
  "fneg NaN = NaN"
| "fneg (Num a) = Num (- a)"
| "fneg Infinity = NegInfinity"
| "fneg NegInfinity = Infinity"

fun fadd :: "number \<Rightarrow> number \<Rightarrow> number" where
  "fadd (Num a) (Num b) = rnd (a + b)"
| "fadd NaN _ = NaN"
| "fadd _ NaN = NaN"
| "fadd Infinity NegInfinity = NaN"
| "fadd NegInfinity Infinity = NaN"
| "fadd Infinity _ = Infinity"
| "fadd _ Infinity = Infinity"
| "fadd NegInfinity _ = NegInfinity"
| "fadd _ NegInfinity = NegInfinity"

definition fsub :: "number \<Rightarrow> number \<Rightarrow> number" where
  "fsub x y = fadd x (fneg y)"

text \<open>The sign of a number that is not NaN: \<open>-1\<close>, \<open>0\<close> or \<open>1\<close>.\<close>

fun fsign :: "number \<Rightarrow> int" where
  "fsign (Num a) = (if a = 0 then 0 else if 0 < a then 1 else - 1)"
| "fsign Infinity = 1"
| "fsign NegInfinity = - 1"
| "fsign NaN = 0"

fun fmul :: "number \<Rightarrow> number \<Rightarrow> number" where
  "fmul (Num a) (Num b) = rnd (a * b)"
| "fmul NaN _ = NaN"
| "fmul _ NaN = NaN"
| "fmul x y =
     (let s = fsign x * fsign y
      in if s = 0 then NaN else if 0 < s then Infinity else NegInfinity)"

text \<open>
  Division by a positive finite constant (the matcher divides by \<^verbatim>\<open>180\<close> and by \<^verbatim>\<open>2\<close>
  only): NaN and the infinities are kept.
\<close>

fun fdiv :: "number \<Rightarrow> real \<Rightarrow> number" where
  "fdiv (Num a) c = rnd (a / c)"
| "fdiv x c = x"

text \<open>
  \<^verbatim>\<open>x ** 2\<close>, and the functions of \<^verbatim>\<open>Math\<close> that the matcher calls. ECMAScript leaves
  the precision of \<^verbatim>\<open>**\<close>, \<^verbatim>\<open>Math.sin\<close>, \<^verbatim>\<open>Math.cos\<close> and \<^verbatim>\<open>Math.asin\<close> to the
  implementation; they are taken here as correctly rounded (the exact value, rounded),
  as \<^verbatim>\<open>Math.sqrt\<close> is in IEEE 754. The sine and the cosine of an infinity, the square
  root of a negative number and the arc sine outside \<open>[-1, 1]\<close> are NaN.
\<close>

fun pow2 :: "number \<Rightarrow> number" where
  "pow2 NaN = NaN"
| "pow2 (Num a) = rnd (a * a)"
| "pow2 _ = Infinity"

fun Math_sin :: "number \<Rightarrow> number" where
  "Math_sin (Num x) = rnd (sin x)"
| "Math_sin _ = NaN"

fun Math_cos :: "number \<Rightarrow> number" where
  "Math_cos (Num x) = rnd (cos x)"
| "Math_cos _ = NaN"

fun Math_sqrt :: "number \<Rightarrow> number" where
  "Math_sqrt (Num x) = (if x < 0 then NaN else rnd (sqrt x))"
| "Math_sqrt Infinity = Infinity"
| "Math_sqrt _ = NaN"

fun Math_asin :: "number \<Rightarrow> number" where
  "Math_asin (Num x) = (if x < - 1 \<or> 1 < x then NaN else rnd (arcsin x))"
| "Math_asin _ = NaN"

text \<open>
  \<^verbatim>\<open>Math.PI\<close> is the binary64 number nearest to \<open>\<pi>\<close>, which is exactly
  \<open>884279719003555 / 2^48\<close> (3.141592653589793115997963...).
\<close>

definition Math_PI :: real where
  "Math_PI = 884279719003555 / 281474976710656"

text \<open>A number that is finite and within bounds, and one whose magnitude is.\<close>

definition between :: "real \<Rightarrow> real \<Rightarrow> number \<Rightarrow> bool" where
  "between lo hi v = (case v of Num r \<Rightarrow> lo \<le> r \<and> r \<le> hi | _ \<Rightarrow> False)"

definition absBetween :: "real \<Rightarrow> real \<Rightarrow> number \<Rightarrow> bool" where
  "absBetween lo hi v = (case v of Num r \<Rightarrow> lo \<le> \<bar>r\<bar> \<and> \<bar>r\<bar> \<le> hi | _ \<Rightarrow> False)"

section \<open>WaypointUpload.tsx: the nearest-waypoint matcher\<close>

text \<open>
  \<^verbatim>\<open>
  function haversine(lat1, lon1, lat2, lon2) {
    const R = 3440.065;
    const dLat = ((lat2 - lat1) * Math.PI) / 180;
    const dLon = ((lon2 - lon1) * Math.PI) / 180;
    const a = Math.sin(dLat / 2) ** 2 +
      Math.cos((lat1 * Math.PI) / 180) * Math.cos((lat2 * Math.PI) / 180) *
      Math.sin(dLon / 2) ** 2;
    return 2 * R * Math.asin(Math.sqrt(a));
  }
  \<close>
  Each operation is one rounded operation, in the order of the source (\<^verbatim>\<open>**\<close> binds
  tighter than \<^verbatim>\<open>*\<close>, and \<^verbatim>\<open>*\<close> associates to the left). \<open>toRad x\<close> is
  \<^verbatim>\<open>(x * Math.PI) / 180\<close>, \<open>hav_a\<close> the value of \<^verbatim>\<open>a\<close>, and the literal \<^verbatim>\<open>3440.065\<close> is the
  binary64 number nearest to it.
\<close>

definition toRad :: "number \<Rightarrow> number" where
  "toRad x = fdiv (fmul x (Num Math_PI)) 180"

definition hav_a :: "number \<Rightarrow> number \<Rightarrow> number \<Rightarrow> number \<Rightarrow> number" where
  "hav_a lat1 lon1 lat2 lon2 =
     (let dLat = toRad (fsub lat2 lat1);
          dLon = toRad (fsub lon2 lon1)
      in fadd (pow2 (Math_sin (fdiv dLat 2)))
           (fmul (fmul (Math_cos (toRad lat1)) (Math_cos (toRad lat2)))
              (pow2 (Math_sin (fdiv dLon 2)))))"

definition haversine :: "number \<Rightarrow> number \<Rightarrow> number \<Rightarrow> number \<Rightarrow> number" where
  "haversine lat1 lon1 lat2 lon2 =
     (let R = rnd 3440.065;
          a = hav_a lat1 lon1 lat2 lon2
      in fmul (fmul (Num 2) R) (Math_asin (Math_sqrt a)))"

text \<open>
  The scan of \<^verbatim>\<open>handleFile\<close>, with \<^verbatim>\<open>best\<close> (\<open>None\<close> is \<^verbatim>\<open>null\<close>) and \<^verbatim>\<open>bestDist\<close> as
  the loop state; \<^verbatim>\<open>lat\<close> and \<^verbatim>\<open>lon\<close> are the numbers that \<^verbatim>\<open>exifr\<close> returned:
  \<^verbatim>\<open>
  let best = null; let bestDist = Infinity;
  for (const wp of WAYPOINTS) {
    const d = haversine(lat, lon, wp.lat, wp.lon);
    if (d < bestDist) { bestDist = d; best = wp; }
  }
  \<close>
\<close>

fun scan :: "number \<Rightarrow> number \<Rightarrow> waypoint list \<Rightarrow> waypoint option \<times> number
    \<Rightarrow> waypoint option \<times> number" where
  "scan qlat qlon [] (best, bestDist) = (best, bestDist)"
| "scan qlat qlon (wp # wps) (best, bestDist) =
     (let d = haversine qlat qlon (Num (lat wp)) (Num (lon wp))
      in if lt d bestDist then scan qlat qlon wps (Some wp, d)
         else scan qlat qlon wps (best, bestDist))"

definition nearest :: "number \<Rightarrow> number \<Rightarrow> waypoint list \<Rightarrow> waypoint option \<times> number" where
  "nearest qlat qlon WAYPOINTS = scan qlat qlon WAYPOINTS (None, Infinity)"

text \<open>The distance the scan computes for one waypoint.\<close>

definition distTo :: "number \<Rightarrow> number \<Rightarrow> waypoint \<Rightarrow> number" where
  "distTo qlat qlon wp = haversine qlat qlon (Num (lat wp)) (Num (lon wp))"

text \<open>The coordinate ranges of a latitude and of a longitude, in degrees.\<close>

definition validLat :: "real \<Rightarrow> bool" where
  "validLat x = (- 90 \<le> x \<and> x \<le> 90)"

definition validLon :: "real \<Rightarrow> bool" where
  "validLon x = (- 180 \<le> x \<and> x \<le> 180)"

section \<open>WaypointUpload.tsx: the upload flow\<close>

datatype step = Upload | ConfirmGps

text \<open>The component state (the \<^verbatim>\<open>useState\<close> cells); a file and its object URL are strings.\<close>

record upload_state =
  preview :: "string option"
  exifLocation :: "(number \<times> number) option"
  suggestedWp :: "waypoint option"
  pendingFile :: "string option"
  step :: step

definition initialState :: upload_state where
  "initialState = \<lparr>preview = None, exifLocation = None, suggestedWp = None,
     pendingFile = None, step = Upload\<rparr>"

text \<open>
  What \<^verbatim>\<open>await exifr.gps(file)\<close> does: it throws (caught by the empty \<^verbatim>\<open>catch\<close>), it
  returns \<^verbatim>\<open>undefined\<close>, or it returns an object with the numbers \<^verbatim>\<open>latitude\<close> and
  \<^verbatim>\<open>longitude\<close>, which may be any value of type Number.
\<close>

datatype exifr_gps = GpsThrows | GpsUndefined | Gps number number

text \<open>
  \<^verbatim>\<open>
  const handleFile = async (file) => {
    const url = URL.createObjectURL(file);
    setPreview(url); setPendingFile(file);
    try {
      const gps = await exifr.gps(file);
      if (gps && gps.latitude && gps.longitude) {
        const { latitude: lat, longitude: lon } = gps;
        setExifLocation({ lat, lon });
        ... the scan ...
        setSuggestedWp(best);
        setStep("confirm-gps");
      }
    } catch { }
  };
  \<close>
  The test \<^verbatim>\<open>gps.latitude && gps.longitude\<close> is the truthiness of both numbers.
\<close>

definition handleFile :: "string \<Rightarrow> string \<Rightarrow> exifr_gps \<Rightarrow> waypoint list \<Rightarrow> upload_state
    \<Rightarrow> upload_state" where
  "handleFile file url gps WAYPOINTS s =
     (let s1 = s\<lparr>preview := Some url, pendingFile := Some file\<rparr>
      in case gps of
           GpsThrows \<Rightarrow> s1
         | GpsUndefined \<Rightarrow> s1
         | Gps glat glon \<Rightarrow>
             if truthy glat \<and> truthy glon
             then s1\<lparr>exifLocation := Some (glat, glon),
                     suggestedWp := fst (nearest glat glon WAYPOINTS),
                     step := ConfirmGps\<rparr>
             else s1)"

text \<open>
  The waypoints that the rendered dialog offers to save to, in button order, for the
  selected waypoint \<open>wp\<close> (the dialog body is rendered only when one is selected):
  the confirm panel (\<^verbatim>\<open>step === "confirm-gps" && suggestedWp && preview\<close>) has
  ``Use GPS waypoint'' (\<^verbatim>\<open>saveToWaypoint(suggestedWp)\<close>) and ``Keep selected''
  (\<^verbatim>\<open>saveToWaypoint(waypoint)\<close>); the upload panel (\<^verbatim>\<open>step === "upload"\<close>) with a preview
  has ``Save to Waypoint'' (\<^verbatim>\<open>saveToWaypoint(waypoint)\<close>). A string is truthy when
  it is not empty.
\<close>

definition saveTargets :: "upload_state \<Rightarrow> waypoint \<Rightarrow> waypoint list" where
  "saveTargets s wp =
     (case step s of
        ConfirmGps \<Rightarrow>
          (case (suggestedWp s, preview s) of
             (Some sw, Some p) \<Rightarrow> if p \<noteq> [] then [sw, wp] else []
           | _ \<Rightarrow> [])
      | Upload \<Rightarrow>
          (case preview s of Some p \<Rightarrow> if p \<noteq> [] then [wp] else [] | None \<Rightarrow> []))"

section \<open>AdventureMap.tsx: the night-watch layer\<close>

text \<open>
  \<^verbatim>\<open>new Date(isoTime).getUTCHours()\<close> on the time value \<open>t\<close> of the parsed date is
  \<open>floor (t / msPerHour) modulo 24\<close> (ECMAScript's \<^verbatim>\<open>HourFromTime\<close>); \<open>div\<close> and \<open>mod\<close>
  on \<open>int\<close> round towards minus infinity, as that definition does.
\<close>

definition getUTCHours :: "int \<Rightarrow> int" where
  "getUTCHours t = (t div 3600000) mod 24"

text \<open>
  \<^verbatim>\<open>
  const isNightUTC = (isoTime) => {
    const h = new Date(isoTime).getUTCHours();
    return h >= 8 && h < 21;
  };
  \<close>
\<close>

definition isNightUTC :: "int \<Rightarrow> bool" where
  "isNightUTC isoTime = (let h = getUTCHours isoTime in h \<ge> 8 \<and> h < 21)"

text \<open>What a layer group holds: polylines and markers, by their coordinates.\<close>

datatype geometry = Polyline "(real \<times> real) list" | Marker "real \<times> real"

text \<open>
  The night-watch block of \<^verbatim>\<open>buildMap\<close>. The loop state is \<^verbatim>\<open>nightSegment\<close> and the
  polylines added to \<^verbatim>\<open>nightLayer\<close> so far:
  \<^verbatim>\<open>
  let nightSegment = [];
  for (let i = 0; i < WAYPOINTS.length; i++) {
    const wp = WAYPOINTS[i];
    if (isNightUTC(wp.time)) { nightSegment.push([wp.lat, wp.lon]); }
    else {
      if (nightSegment.length > 1) { L.polyline(nightSegment, ...).addTo(nightLayer); }
      nightSegment = [];
    }
  }
  if (nightSegment.length > 1) { L.polyline(nightSegment, ...).addTo(nightLayer); }
  \<close>
\<close>

fun nightLoop :: "waypoint list \<Rightarrow> (real \<times> real) list \<Rightarrow> (real \<times> real) list list
    \<Rightarrow> (real \<times> real) list \<times> (real \<times> real) list list" where
  "nightLoop [] nightSegment nightLayer = (nightSegment, nightLayer)"
| "nightLoop (wp # wps) nightSegment nightLayer =
     (if isNightUTC (time wp)
      then nightLoop wps (nightSegment @ [(lat wp, lon wp)]) nightLayer
      else nightLoop wps []
             (if length nightSegment > 1 then nightLayer @ [nightSegment] else nightLayer))"

definition nightWatchSegments :: "waypoint list \<Rightarrow> (real \<times> real) list list" where
  "nightWatchSegments WAYPOINTS =
     (case nightLoop WAYPOINTS [] [] of
        (nightSegment, nightLayer) \<Rightarrow>
          if length nightSegment > 1 then nightLayer @ [nightSegment] else nightLayer)"

text \<open>
  The specification's words, on waypoints rather than coordinates: the maximal contiguous
  runs of consecutive waypoints that satisfy \<open>P\<close>, in order. \<open>nightRuns\<close> are the runs of
  night waypoints; the drawn segments are the runs of at least two waypoints.
\<close>

function runs :: "('a \<Rightarrow> bool) \<Rightarrow> 'a list \<Rightarrow> 'a list list" where
  "runs P [] = []"
| "runs P (x # xs) =
     (if P x then (x # takeWhile P xs) # runs P (dropWhile P xs) else runs P xs)"
  by pat_completeness auto
termination
  by (relation "measure (\<lambda>(P, xs). length xs)") (auto simp: length_dropWhile_le le_imp_less_Suc)

definition nightRuns :: "waypoint list \<Rightarrow> waypoint list list" where
  "nightRuns WAYPOINTS = runs (\<lambda>wp. isNightUTC (time wp)) WAYPOINTS"

definition latlon :: "waypoint \<Rightarrow> real \<times> real" where
  "latlon wp = (lat wp, lon wp)"

section \<open>AdventureMap.tsx: the highlight layers and their visibility\<close>

text \<open>The keys of \<^verbatim>\<open>HighlightState\<close>, which are also the keys of its layers in \<^verbatim>\<open>layersRef\<close>.\<close>

datatype layer_key =
  NightWatch | TopSpeed | Fastest6h | Fish | Storm | ThursdayIsland | Diving | Cairns

record HighlightState =
  nightWatch :: bool
  topSpeed :: bool
  fastest6h :: bool
  fish :: bool
  storm :: bool
  thursdayIsland :: bool
  diving :: bool
  cairns :: bool

text \<open>\<^verbatim>\<open>hs[key]\<close>: the flag of a key.\<close>

fun flag :: "HighlightState \<Rightarrow> layer_key \<Rightarrow> bool" where
  "flag hs NightWatch = nightWatch hs"
| "flag hs TopSpeed = topSpeed hs"
| "flag hs Fastest6h = fastest6h hs"
| "flag hs Fish = fish hs"
| "flag hs Storm = storm hs"
| "flag hs ThursdayIsland = thursdayIsland hs"
| "flag hs Diving = diving hs"
| "flag hs Cairns = cairns hs"

text \<open>
  \<^verbatim>\<open>TOP_SPEED_1H\<close> and \<^verbatim>\<open>FASTEST_6H\<close> of \<^verbatim>\<open>@/lib/journey-data\<close>, each guarded by an \<^verbatim>\<open>if\<close>
  in \<^verbatim>\<open>buildMap\<close>: \<open>None\<close> is a falsy value. They are parameters of the model.
\<close>

record top_speed =
  fromLat :: real
  fromLon :: real
  toLat :: real
  toLon :: real

record fastest =
  fromIdx :: nat
  toIdx :: nat

text \<open>The coordinates of \<^verbatim>\<open>HIGHLIGHT_EVENTS\<close>, which has an entry for each of the five event keys.\<close>

fun HIGHLIGHT_EVENTS :: "layer_key \<Rightarrow> (real \<times> real) option" where
  "HIGHLIGHT_EVENTS Fish = Some (-10.938, 132.825)"
| "HIGHLIGHT_EVENTS Storm = Some (-16.21, 145.51)"
| "HIGHLIGHT_EVENTS ThursdayIsland = Some (-10.587, 142.217)"
| "HIGHLIGHT_EVENTS Diving = Some (-15.629, 145.489)"
| "HIGHLIGHT_EVENTS Cairns = Some (-16.917, 145.782)"
| "HIGHLIGHT_EVENTS _ = None"

text \<open>
  \<^verbatim>\<open>buildEventLayer\<close>: an empty layer group when the key has no event, else a group with
  the event's marker.
\<close>

definition buildEventLayer :: "layer_key \<Rightarrow> geometry list" where
  "buildEventLayer key =
     (case HIGHLIGHT_EVENTS key of None \<Rightarrow> [] | Some ev \<Rightarrow> [Marker ev])"

text \<open>
  The top-speed layer: the layer group is created and stored whatever \<^verbatim>\<open>TOP_SPEED_1H\<close> is;
  the polyline and the label marker at the midpoint are added only when it is set.
\<close>

definition topSpeedLayer :: "top_speed option \<Rightarrow> geometry list" where
  "topSpeedLayer TOP_SPEED_1H =
     (case TOP_SPEED_1H of
        None \<Rightarrow> []
      | Some t \<Rightarrow>
          [Polyline [(fromLat t, fromLon t), (toLat t, toLon t)],
           Marker ((fromLat t + toLat t) / 2, (fromLon t + toLon t) / 2)])"

text \<open>
  The fastest-6h layer: \<^verbatim>\<open>WAYPOINTS.slice(fromIdx, toIdx + 1)\<close> on natural indices, the
  polyline of its points, and a label marker at \<^verbatim>\<open>segPts[Math.floor(segPts.length / 2)]\<close>
  when there is a point.
\<close>

definition fastest6hLayer :: "fastest option \<Rightarrow> waypoint list \<Rightarrow> geometry list" where
  "fastest6hLayer FASTEST_6H WAYPOINTS =
     (case FASTEST_6H of
        None \<Rightarrow> []
      | Some f \<Rightarrow>
          (let segPts = map (\<lambda>wp. (lat wp, lon wp))
                 (take (toIdx f + 1 - fromIdx f) (drop (fromIdx f) WAYPOINTS))
           in Polyline segPts #
              (if length segPts > 0 then [Marker (segPts ! (length segPts div 2))] else [])))"

text \<open>
  \<^verbatim>\<open>layersRef.current\<close> restricted to the highlight keys, as \<^verbatim>\<open>buildMap\<close> leaves it: every
  key gets a layer group. (The entry \<^verbatim>\<open>"legs"\<close> is never passed to \<^verbatim>\<open>toggleLayer\<close>.)
\<close>

fun buildLayers :: "top_speed option \<Rightarrow> fastest option \<Rightarrow> waypoint list
    \<Rightarrow> layer_key \<Rightarrow> geometry list option" where
  "buildLayers ts f6 WAYPOINTS NightWatch = Some (map Polyline (nightWatchSegments WAYPOINTS))"
| "buildLayers ts f6 WAYPOINTS TopSpeed = Some (topSpeedLayer ts)"
| "buildLayers ts f6 WAYPOINTS Fastest6h = Some (fastest6hLayer f6 WAYPOINTS)"
| "buildLayers ts f6 WAYPOINTS key = Some (buildEventLayer key)"

text \<open>
  The map holds a set of layers; a layer is identified by its key in \<^verbatim>\<open>layersRef\<close>.
  \<^verbatim>\<open>
  const toggleLayer = (key, on) => {
    const layer = layersRef.current[key];
    if (!layer) return;
    if (on) map.addLayer(layer); else map.removeLayer(layer);
  };
  \<close>
\<close>

definition toggleLayer :: "(layer_key \<Rightarrow> geometry list option) \<Rightarrow> layer_key \<Rightarrow> bool
    \<Rightarrow> layer_key set \<Rightarrow> layer_key set" where
  "toggleLayer layersRef key on m =
     (case layersRef key of
        None \<Rightarrow> m
      | Some layer \<Rightarrow> if on then insert key m else m - {key})"

definition setLayerVisibility :: "(layer_key \<Rightarrow> geometry list option) \<Rightarrow> layer_key set
    \<Rightarrow> HighlightState \<Rightarrow> layer_key set" where
  "setLayerVisibility layersRef m hs =
     (let m1 = toggleLayer layersRef NightWatch (nightWatch hs) m;
          m2 = toggleLayer layersRef TopSpeed (topSpeed hs) m1;
          m3 = toggleLayer layersRef Fastest6h (fastest6h hs) m2;
          m4 = toggleLayer layersRef Fish (fish hs) m3;
          m5 = toggleLayer layersRef Storm (storm hs) m4;
          m6 = toggleLayer layersRef ThursdayIsland (thursdayIsland hs) m5;
          m7 = toggleLayer layersRef Diving (diving hs) m6
      in toggleLayer layersRef Cairns (cairns hs) m7)"

text \<open>The geometry the map draws: that of the layers it holds.\<close>

definition rendered :: "(layer_key \<Rightarrow> geometry list option) \<Rightarrow> layer_key set \<Rightarrow> geometry set" where
  "rendered layersRef m = {g. \<exists>key\<in>m. \<exists>layer. layersRef key = Some layer \<and> g \<in> set layer}"

section \<open>Example data\<close>

text \<open>
  A waypoint with the given index, latitude, longitude and time value; the fields that
  neither the matcher nor the night-watch layer reads are left empty.
\<close>

definition wpAt :: "nat \<Rightarrow> real \<Rightarrow> real \<Rightarrow> int \<Rightarrow> waypoint" where
  "wpAt i la lo t = \<lparr>index = i, name = [], lat = la, lon = lo, time = t, speed = 0,
     cumDist = 0, leg = [], legColor = []\<rparr>"

text \<open>
  Four waypoints on 12 February 2026 at 00:00, 19:00, 20:00 and 23:00 UTC
  (1770854400000 ms is 2026-02-12T00:00:00Z).
\<close>

definition exampleTrack :: "waypoint list" where
  "exampleTrack =
     [wpAt 0 (-12.40) 130.80 1770854400000,
      wpAt 1 (-12.10) 131.90 1770922800000,
      wpAt 2 (-12.05) 132.00 1770926400000,
      wpAt 3 (-11.90) 132.30 1770937200000]"


section \<open>Rounding\<close>

lemma roundEven_cases: "roundEven y = \<lfloor>y\<rfloor> \<or> roundEven y = \<lfloor>y\<rfloor> + 1"
  by (simp add: roundEven_def Let_def)

lemma roundEven_err: "\<bar>of_int (roundEven y) - y\<bar> \<le> 1/2"
proof -
  define n where "n = \<lfloor>y\<rfloor>"
  have b: "of_int n \<le> y" "y < of_int n + 1" unfolding n_def by linarith+
  show ?thesis
  proof (cases "y - of_int n < 1/2")
    case True
    then have "roundEven y = n" by (simp add: roundEven_def Let_def n_def)
    then show ?thesis using True b by simp
  next
    case False
    show ?thesis
    proof (cases "1/2 < y - of_int n")
      case True
      with False have "roundEven y = n + 1" by (simp add: roundEven_def Let_def n_def)
      then show ?thesis using True b by simp
    next
      case F2: False
      with False have h: "y - of_int n = 1/2" by simp
      from roundEven_cases [of y] have "roundEven y = n \<or> roundEven y = n + 1" by (simp add: n_def)
      then show ?thesis using h by auto
    qed
  qed
qed

lemma roundEven_small:
  assumes "\<bar>y\<bar> < 1/2"
  shows "roundEven y = 0"
proof (cases "0 \<le> y")
  case True
  with assms have "\<lfloor>y\<rfloor> = 0" by (simp add: floor_eq_iff)
  then show ?thesis using assms True by (simp add: roundEven_def Let_def)
next
  case False
  with assms have f: "\<lfloor>y\<rfloor> = - 1" by (simp add: floor_eq_iff)
  have "1/2 < y - of_int (- 1 :: int)" using assms False by simp
  then show ?thesis using f by (simp add: roundEven_def Let_def)
qed

lemma roundEven_nonneg: "0 \<le> y \<Longrightarrow> 0 \<le> roundEven y"
  using roundEven_cases [of y] by (auto simp: zero_le_floor)

lemma roundEven_nonpos:
  assumes "y \<le> 0"
  shows "roundEven y \<le> 0"
proof (cases "y = 0")
  case True
  then show ?thesis by (simp add: roundEven_def)
next
  case False
  with assms have "\<lfloor>y\<rfloor> \<le> - 1" by (simp add: floor_le_iff)
  moreover have "roundEven y \<le> \<lfloor>y\<rfloor> + 1" using roundEven_cases [of y] by linarith
  ultimately show ?thesis by linarith
qed

lemma ulp_pos: "0 < ulp x"
  by (simp add: ulp_def)

lemma ulp_le:
  assumes "x \<noteq> 0"
  shows "ulp x \<le> max (\<bar>x\<bar> * 2 powr (- 52)) (2 powr (- 1074))"
proof (cases "- 1022 \<le> \<lfloor>log 2 \<bar>x\<bar>\<rfloor>")
  case True
  then have b: "binade x = \<lfloor>log 2 \<bar>x\<bar>\<rfloor>" by (simp add: binade_def)
  have "of_int \<lfloor>log 2 \<bar>x\<bar>\<rfloor> - 52 \<le> log 2 \<bar>x\<bar> - 52" by simp
  then have "ulp x \<le> 2 powr (log 2 \<bar>x\<bar> - 52)" unfolding ulp_def b by (intro powr_mono) simp_all
  also have "\<dots> = \<bar>x\<bar> * 2 powr (- 52)" using assms by (simp add: powr_diff powr_minus field_simps)
  finally show ?thesis by simp
next
  case False
  then have "binade x = - 1022" by (simp add: binade_def)
  then have "ulp x = 2 powr (- 1074)" by (simp add: ulp_def)
  then show ?thesis by simp
qed

lemma ulp_small:
  assumes "x \<noteq> 0" "\<bar>x\<bar> < 2 powr (- 1022)"
  shows "ulp x = 2 powr (- 1074)"
proof -
  have "log 2 \<bar>x\<bar> < - 1022" using assms by (simp add: log_less_iff)
  then have "\<lfloor>log 2 \<bar>x\<bar>\<rfloor> < - 1022" by (simp add: floor_less_iff)
  then have "binade x = - 1022" by (simp add: binade_def)
  then show ?thesis by (simp add: ulp_def)
qed


lemma rnd_zero: "rnd 0 = Num 0"
  by (simp add: rnd_def)

lemma rnd_underflow:
  assumes "\<bar>x\<bar> < 2 powr (- 1075)"
  shows "rnd x = Num 0"
proof (cases "x = 0")
  case True
  then show ?thesis by (simp add: rnd_def)
next
  case False
  have "(2::real) powr (- 1075) \<le> 2 powr (- 1022)" by (intro powr_mono) simp_all
  with assms have "\<bar>x\<bar> < 2 powr (- 1022)" by linarith
  with False have u: "ulp x = 2 powr (- 1074)" by (rule ulp_small)
  have "(2::real) powr (- 1075) = 2 powr (- 1074) / 2"
    by (simp add: powr_minus field_simps)
  with assms have "\<bar>x\<bar> < 2 powr (- 1074) / 2" by simp
  then have "\<bar>x / ulp x\<bar> < 1/2" unfolding u by (simp add: field_simps)
  then have "roundEven (x / ulp x) = 0" by (rule roundEven_small)
  then show ?thesis using False by (simp add: rnd_def)
qed

text \<open>The rounding error is at most half an ulp, and rounding keeps the sign.\<close>

lemma rnd_value_error: "\<bar>of_int (roundEven (x / ulp x)) * ulp x - x\<bar> \<le> ulp x / 2"
proof -
  define u where "u = ulp x"
  define k :: real where "k = of_int (roundEven (x / u))"
  have u: "0 < u" unfolding u_def by (rule ulp_pos)
  have "\<bar>k - x / u\<bar> \<le> 1/2" unfolding k_def by (rule roundEven_err)
  then have "\<bar>k - x / u\<bar> * u \<le> 1/2 * u" using u by (intro mult_right_mono) simp_all
  moreover have "k * u - x = (k - x / u) * u" using u by (simp add: field_simps)
  then have "\<bar>k * u - x\<bar> = \<bar>k - x / u\<bar> * u" using u by (simp add: abs_mult)
  ultimately show ?thesis unfolding k_def u_def by simp
qed

lemma ulp_le_sum:
  assumes "x \<noteq> 0"
  shows "ulp x \<le> \<bar>x\<bar> * 2 powr (- 52) + 2 powr (- 1074)"
proof -
  have "0 \<le> \<bar>x\<bar> * 2 powr (- 52)" "(0::real) \<le> 2 powr (- 1074)" by simp_all
  with ulp_le [OF assms] show ?thesis by linarith
qed

lemma rnd_finite:
  assumes "\<bar>x\<bar> \<le> 2 ^ 1023"
  shows "\<exists>r. rnd x = Num r \<and> \<bar>r - x\<bar> \<le> \<bar>x\<bar> * 2 powr (- 53) + 2 powr (- 1075) \<and>
           (0 \<le> x \<longrightarrow> 0 \<le> r) \<and> (x \<le> 0 \<longrightarrow> r \<le> 0)"
proof (cases "x = 0")
  case True
  then show ?thesis by (simp add: rnd_def)
next
  case False
  define r where "r = of_int (roundEven (x / ulp x)) * ulp x"
  define P :: real where "P = 2 ^ 1023"
  have P: "1 \<le> P" "(2::real) ^ 1024 = 2 * P" unfolding P_def by simp_all
  have e: "\<bar>r - x\<bar> \<le> ulp x / 2" unfolding r_def by (rule rnd_value_error)
  have u: "ulp x \<le> \<bar>x\<bar> * 2 powr (- 52) + 2 powr (- 1074)" using False by (rule ulp_le_sum)
  have h: "(2::real) powr (- 52) = 2 * 2 powr (- 53)" "(2::real) powr (- 1074) = 2 * 2 powr (- 1075)"
    by (simp_all add: powr_minus field_simps)
  have b: "\<bar>r - x\<bar> \<le> \<bar>x\<bar> * 2 powr (- 53) + 2 powr (- 1075)" using e u h by simp
  have s1: "(2::real) powr (- 53) \<le> 1/4" by (simp add: powr_minus field_simps)
  have s2: "(2::real) powr (- 1075) \<le> 1/4" by (simp add: powr_minus field_simps)
  have "\<bar>x\<bar> * 2 powr (- 53) \<le> \<bar>x\<bar> * (1/4)" using s1 by (intro mult_left_mono) simp_all
  then have "\<bar>r - x\<bar> \<le> \<bar>x\<bar> / 4 + 1/4" using b s2 by simp
  moreover have "\<bar>x\<bar> \<le> P" using assms by (simp add: P_def)
  ultimately have "\<bar>r\<bar> < 2 * P" using P(1) by linarith
  then have fin: "\<not> 2 ^ 1024 \<le> \<bar>r\<bar>" using P(2) by simp
  have pos: "0 \<le> r" if "0 \<le> x"
    unfolding r_def using that ulp_pos [of x] by (intro mult_nonneg_nonneg) (simp_all add: roundEven_nonneg)
  have neg: "r \<le> 0" if "x \<le> 0"
  proof -
    have "x / ulp x \<le> 0" using that ulp_pos [of x] by (simp add: divide_nonpos_pos)
    then have "roundEven (x / ulp x) \<le> 0" by (rule roundEven_nonpos)
    then have "(of_int (roundEven (x / ulp x)) :: real) \<le> 0" by simp
    then show ?thesis unfolding r_def using ulp_pos [of x] by (simp add: mult_nonpos_nonneg)
  qed
  have "rnd x = Num r" using False fin unfolding rnd_def r_def by (simp add: Let_def)
  then show ?thesis using b pos neg by blast
qed


section \<open>Bounds on rounded results\<close>

lemma between_Num [simp]: "between lo hi (Num r) \<longleftrightarrow> lo \<le> r \<and> r \<le> hi"
  by (simp add: between_def)

lemma absBetween_Num [simp]: "absBetween lo hi (Num r) \<longleftrightarrow> lo \<le> \<bar>r\<bar> \<and> \<bar>r\<bar> \<le> hi"
  by (simp add: absBetween_def)

lemma betweenD:
  assumes "between lo hi v"
  obtains r where "v = Num r" "lo \<le> r" "r \<le> hi"
  using assms by (cases v) (simp_all add: between_def)

lemma absBetweenD:
  assumes "absBetween lo hi v"
  obtains r where "v = Num r" "lo \<le> \<bar>r\<bar>" "\<bar>r\<bar> \<le> hi"
  using assms by (cases v) (simp_all add: absBetween_def)

lemma between_abs: "between lo hi v \<Longrightarrow> 0 \<le> lo \<Longrightarrow> absBetween lo hi v"
  by (cases v) (simp_all add: between_def absBetween_def)

lemma between_mono: "between lo hi v \<Longrightarrow> lo' \<le> lo \<Longrightarrow> hi \<le> hi' \<Longrightarrow> between lo' hi' v"
  by (cases v) (simp_all add: between_def)

text \<open>
  In the range \<open>[2^-1000, 2^1000]\<close> the rounding error is below \<open>10^-15\<close> of the value.
\<close>

lemma tiny_bound:
  assumes "1 / 2 ^ 1000 \<le> (h::real)"
  shows "h * 2 powr (- 53) + 2 powr (- 1075) \<le> h / 10 ^ 15"
proof -
  have a: "(2::real) powr (- 53) \<le> 1 / (2 * 10 ^ 15)" by (simp add: powr_minus field_simps)
  have "(2::real) powr (- 1075) \<le> 2 powr (- 1060)" by (intro powr_mono) simp_all
  also have "\<dots> = 1 / 2 ^ 1060" by (simp add: powr_minus field_simps)
  also have "\<dots> \<le> (1 / 2 ^ 1000) / (2 * 10 ^ 15)" by simp
  also have "\<dots> \<le> h / (2 * 10 ^ 15)" using assms by (intro divide_right_mono) simp_all
  finally have b: "2 powr (- 1075) \<le> h / (2 * 10 ^ 15)" .
  have "0 \<le> h" using assms by (rule order_trans [rotated]) simp
  then have "h * 2 powr (- 53) \<le> h * (1 / (2 * 10 ^ 15))" using a by (intro mult_left_mono)
  with b show ?thesis by simp
qed

lemma rnd_abs:
  assumes x: "lo \<le> \<bar>x\<bar>" "\<bar>x\<bar> \<le> hi"
    and h: "1 / 2 ^ 1000 \<le> hi" "hi \<le> 2 ^ 1000"
    and l: "lo' \<le> 0 \<or> (1 / 2 ^ 1000 \<le> lo \<and> lo' \<le> lo * (1 - 1 / 10 ^ 15))"
    and u: "hi * (1 + 1 / 10 ^ 15) \<le> hi'"
  shows "absBetween lo' hi' (rnd x)"
proof -
  have "hi \<le> 2 ^ 1023" using h(2) by (rule order_trans) simp
  with x(2) have "\<bar>x\<bar> \<le> 2 ^ 1023" by linarith
  from rnd_finite [OF this] obtain r where r: "rnd x = Num r"
    and e: "\<bar>r - x\<bar> \<le> \<bar>x\<bar> * 2 powr (- 53) + 2 powr (- 1075)" by blast
  have "\<bar>x\<bar> * 2 powr (- 53) \<le> hi * 2 powr (- 53)" using x(2) by (intro mult_right_mono) simp_all
  with e tiny_bound [OF h(1)] have "\<bar>r - x\<bar> \<le> hi / 10 ^ 15" by linarith
  moreover have "\<bar>r\<bar> \<le> \<bar>x\<bar> + \<bar>r - x\<bar>" by linarith
  moreover have "hi * (1 + 1 / 10 ^ 15) = hi + hi / 10 ^ 15" by (simp add: algebra_simps)
  ultimately have up: "\<bar>r\<bar> \<le> hi'" using x(2) u by linarith
  have low: "lo' \<le> \<bar>r\<bar>"
  proof (cases "lo' \<le> 0")
    case True
    then show ?thesis by linarith
  next
    case False
    with l have l1: "1 / 2 ^ 1000 \<le> lo" and l2: "lo' \<le> lo * (1 - 1 / 10 ^ 15)" by simp_all
    from l1 x(1) have "1 / 2 ^ 1000 \<le> \<bar>x\<bar>" by linarith
    from tiny_bound [OF this] e have "\<bar>r - x\<bar> \<le> \<bar>x\<bar> / 10 ^ 15" by linarith
    moreover have "\<bar>x\<bar> \<le> \<bar>r\<bar> + \<bar>r - x\<bar>" by linarith
    moreover have "\<bar>x\<bar> * (1 - 1 / 10 ^ 15) = \<bar>x\<bar> - \<bar>x\<bar> / 10 ^ 15" by (simp add: algebra_simps)
    ultimately have "\<bar>x\<bar> * (1 - 1 / 10 ^ 15) \<le> \<bar>r\<bar>" by linarith
    moreover have "lo * (1 - 1 / 10 ^ 15) \<le> \<bar>x\<bar> * (1 - 1 / 10 ^ 15)"
      using x(1) by (intro mult_right_mono) simp_all
    ultimately show ?thesis using l2 by linarith
  qed
  from r low up show ?thesis by simp
qed

lemma rnd_pos:
  assumes x: "lo \<le> x" "x \<le> hi" "0 \<le> lo"
    and h: "1 / 2 ^ 1000 \<le> hi" "hi \<le> 2 ^ 1000"
    and l: "lo' \<le> 0 \<or> (1 / 2 ^ 1000 \<le> lo \<and> lo' \<le> lo * (1 - 1 / 10 ^ 15))"
    and u: "hi * (1 + 1 / 10 ^ 15) \<le> hi'"
  shows "between lo' hi' (rnd x)"
proof -
  have x0: "0 \<le> x" using x by linarith
  then have "lo \<le> \<bar>x\<bar>" "\<bar>x\<bar> \<le> hi" using x by simp_all
  from rnd_abs [OF this h l u] obtain r where r: "rnd x = Num r" "lo' \<le> \<bar>r\<bar>" "\<bar>r\<bar> \<le> hi'"
    by (rule absBetweenD)
  have "hi \<le> 2 ^ 1023" using h(2) by (rule order_trans) simp
  with x x0 have "\<bar>x\<bar> \<le> 2 ^ 1023" by simp
  from rnd_finite [OF this] r(1) x0 have "0 \<le> r" by auto
  with r show ?thesis by simp
qed


section \<open>Bounds on the operations\<close>

lemma fsub_Num [simp]: "fsub (Num a) (Num b) = rnd (a - b)"
  by (simp add: fsub_def)

lemma fmul_abs:
  assumes "absBetween l1 h1 u" "absBetween l2 h2 v" "0 \<le> l1" "0 \<le> l2"
    and "1 / 2 ^ 1000 \<le> h1 * h2" "h1 * h2 \<le> 2 ^ 1000"
    and "lo' \<le> 0 \<or> (1 / 2 ^ 1000 \<le> l1 * l2 \<and> lo' \<le> l1 * l2 * (1 - 1 / 10 ^ 15))"
    and "h1 * h2 * (1 + 1 / 10 ^ 15) \<le> hi'"
  shows "absBetween lo' hi' (fmul u v)"
proof -
  from assms(1) obtain a where a: "u = Num a" "l1 \<le> \<bar>a\<bar>" "\<bar>a\<bar> \<le> h1" by (rule absBetweenD)
  from assms(2) obtain b where b: "v = Num b" "l2 \<le> \<bar>b\<bar>" "\<bar>b\<bar> \<le> h2" by (rule absBetweenD)
  have "l1 * l2 \<le> \<bar>a\<bar> * \<bar>b\<bar>" using a b assms(3,4) by (intro mult_mono) simp_all
  then have 1: "l1 * l2 \<le> \<bar>a * b\<bar>" by (simp add: abs_mult)
  have "\<bar>a\<bar> * \<bar>b\<bar> \<le> h1 * h2" using a b assms(3,4) by (intro mult_mono) simp_all
  then have 2: "\<bar>a * b\<bar> \<le> h1 * h2" by (simp add: abs_mult)
  show ?thesis unfolding a(1) b(1) fmul.simps by (rule rnd_abs [OF 1 2 assms(5-8)])
qed

lemma fmul_between:
  assumes "between l1 h1 u" "between l2 h2 v" "0 \<le> l1" "0 \<le> l2"
    and "1 / 2 ^ 1000 \<le> h1 * h2" "h1 * h2 \<le> 2 ^ 1000"
    and "lo' \<le> 0 \<or> (1 / 2 ^ 1000 \<le> l1 * l2 \<and> lo' \<le> l1 * l2 * (1 - 1 / 10 ^ 15))"
    and "h1 * h2 * (1 + 1 / 10 ^ 15) \<le> hi'"
  shows "between lo' hi' (fmul u v)"
proof -
  from assms(1) obtain a where a: "u = Num a" "l1 \<le> a" "a \<le> h1" by (rule betweenD)
  from assms(2) obtain b where b: "v = Num b" "l2 \<le> b" "b \<le> h2" by (rule betweenD)
  have 1: "l1 * l2 \<le> a * b" using a b assms(3,4) by (intro mult_mono) simp_all
  have "0 \<le> a" "0 \<le> b" using a b assms(3,4) by linarith+
  then have 2: "a * b \<le> h1 * h2" using a b by (intro mult_mono) simp_all
  have 3: "0 \<le> l1 * l2" using assms(3,4) by simp
  show ?thesis unfolding a(1) b(1) fmul.simps by (rule rnd_pos [OF 1 2 3 assms(5-8)])
qed

lemma fdiv_abs:
  assumes "absBetween l h u" "0 < c"
    and "1 / 2 ^ 1000 \<le> h / c" "h / c \<le> 2 ^ 1000"
    and "lo' \<le> 0 \<or> (1 / 2 ^ 1000 \<le> l / c \<and> lo' \<le> l / c * (1 - 1 / 10 ^ 15))"
    and "h / c * (1 + 1 / 10 ^ 15) \<le> hi'"
  shows "absBetween lo' hi' (fdiv u c)"
proof -
  from assms(1) obtain a where a: "u = Num a" "l \<le> \<bar>a\<bar>" "\<bar>a\<bar> \<le> h" by (rule absBetweenD)
  have 1: "l / c \<le> \<bar>a / c\<bar>" using a assms(2) by (simp add: divide_right_mono)
  have 2: "\<bar>a / c\<bar> \<le> h / c" using a assms(2) by (simp add: divide_right_mono)
  show ?thesis unfolding a(1) fdiv.simps by (rule rnd_abs [OF 1 2 assms(3-6)])
qed

lemma sin_lower:
  assumes "0 \<le> (x::real)"
  shows "x - x^3 / 6 \<le> sin x"
proof (cases "x = 0")
  case True
  then show ?thesis by simp
next
  case False
  with assms have "0 < x" by simp
  from Maclaurin_sin_expansion3 [of 3 x] this obtain t where
    t: "sin x = (\<Sum>m<3. sin_coeff m * x ^ m) + (sin (t + 1/2 * real 3 * pi) / fact 3) * x ^ 3"
    by auto
  have s: "(\<Sum>m<3. sin_coeff m * x ^ m) = x"
    by (simp add: sin_coeff_def eval_nat_numeral sum.lessThan_Suc)
  have f: "fact 3 = (6::real)" by (simp add: eval_nat_numeral)
  have "- 1 \<le> sin (t + 1/2 * real 3 * pi)" by (rule sin_ge_minus_one)
  moreover have "0 \<le> x ^ 3" using assms by simp
  ultimately have "- 1 * x ^ 3 \<le> sin (t + 1/2 * real 3 * pi) * x ^ 3"
    by (rule mult_right_mono)
  then have "- (x ^ 3) / 6 \<le> (sin (t + 1/2 * real 3 * pi) / 6) * x ^ 3" by simp
  then show ?thesis using t s f by simp
qed

lemma abs_sin_lower:
  assumes "l \<le> \<bar>x::real\<bar>" "\<bar>x\<bar> \<le> h" "0 \<le> l" "h \<le> 1"
  shows "l * (1 - h\<^sup>2 / 6) \<le> \<bar>sin x\<bar>"
proof -
  define y where "y = \<bar>x\<bar>"
  have y0: "0 \<le> y" by (simp add: y_def)
  have y: "0 \<le> y" "l \<le> y" "y \<le> h" using y0 assms(1,2) by (simp_all add: y_def)
  have "\<bar>sin x\<bar> = \<bar>sin y\<bar>" unfolding y_def by (cases "0 \<le> x") simp_all
  moreover have "y - y^3 / 6 \<le> sin y" using y(1) by (rule sin_lower)
  moreover have "y - y^3 / 6 = y * (1 - y\<^sup>2 / 6)" by (simp add: algebra_simps power3_eq_cube power2_eq_square)
  moreover have "l * (1 - h\<^sup>2 / 6) \<le> y * (1 - y\<^sup>2 / 6)"
  proof (rule mult_mono)
    show "l \<le> y" by (rule y(2))
    have "y\<^sup>2 \<le> h\<^sup>2" using y by (intro power_mono) simp_all
    then show "1 - h\<^sup>2 / 6 \<le> 1 - y\<^sup>2 / 6" by simp
    show "0 \<le> y" by (rule y(1))
    have "h\<^sup>2 \<le> 1" using y assms(4) by (simp add: power_le_one_iff abs_le_square_iff [symmetric])
    then show "0 \<le> 1 - h\<^sup>2 / 6" by simp
  qed
  ultimately show ?thesis by linarith
qed

lemma sin_abs:
  assumes "absBetween l h u" "0 \<le> l" "h \<le> 1"
    and "1 / 2 ^ 1000 \<le> h"
    and "lo' \<le> 0 \<or> (1 / 2 ^ 1000 \<le> l * (1 - h\<^sup>2 / 6) \<and> lo' \<le> l * (1 - h\<^sup>2 / 6) * (1 - 1 / 10 ^ 15))"
    and "h * (1 + 1 / 10 ^ 15) \<le> hi'"
  shows "absBetween lo' hi' (Math_sin u)"
proof -
  from assms(1) obtain a where a: "u = Num a" "l \<le> \<bar>a\<bar>" "\<bar>a\<bar> \<le> h" by (rule absBetweenD)
  have 1: "l * (1 - h\<^sup>2 / 6) \<le> \<bar>sin a\<bar>" using a(2,3) assms(2,3) by (rule abs_sin_lower)
  have 2: "\<bar>sin a\<bar> \<le> h" using abs_sin_x_le_abs_x [of a] a(3) by linarith
  have 3: "h \<le> 2 ^ 1000" using assms(3) by (rule order_trans) simp
  show ?thesis unfolding a(1) Math_sin.simps by (rule rnd_abs [OF 1 2 assms(4) 3 assms(5,6)])
qed

lemma pow2_between:
  assumes "absBetween l h u" "0 \<le> l"
    and "1 / 2 ^ 1000 \<le> h * h" "h * h \<le> 2 ^ 1000"
    and "lo' \<le> 0 \<or> (1 / 2 ^ 1000 \<le> l * l \<and> lo' \<le> l * l * (1 - 1 / 10 ^ 15))"
    and "h * h * (1 + 1 / 10 ^ 15) \<le> hi'"
  shows "between lo' hi' (pow2 u)"
proof -
  from assms(1) obtain a where a: "u = Num a" "l \<le> \<bar>a\<bar>" "\<bar>a\<bar> \<le> h" by (rule absBetweenD)
  have "l * l \<le> \<bar>a\<bar> * \<bar>a\<bar>" using a assms(2) by (intro mult_mono) simp_all
  then have 1: "l * l \<le> a * a" by simp
  have "\<bar>a\<bar> * \<bar>a\<bar> \<le> h * h" using a assms(2) by (intro mult_mono) simp_all
  then have 2: "a * a \<le> h * h" by simp
  have 3: "0 \<le> l * l" using assms(2) by simp
  show ?thesis unfolding a(1) pow2.simps by (rule rnd_pos [OF 1 2 3 assms(3-6)])
qed

lemma cos_lower: "1 - x\<^sup>2 / 2 \<le> cos (x::real)"
proof -
  have "cos (2 * (x / 2)) = 1 - 2 * (sin (x / 2))\<^sup>2" by (rule cos_double_sin)
  then have c: "cos x = 1 - 2 * (sin (x / 2))\<^sup>2" by simp
  have "\<bar>sin (x / 2)\<bar> \<le> \<bar>x / 2\<bar>" by (rule abs_sin_x_le_abs_x)
  then have "(sin (x / 2))\<^sup>2 \<le> (x / 2)\<^sup>2" by (simp only: abs_le_square_iff)
  then have "(sin (x / 2))\<^sup>2 \<le> x\<^sup>2 / 4" by (simp add: power2_eq_square)
  with c show ?thesis by linarith
qed

lemma cos_between:
  assumes "absBetween l h u" "h \<le> 1"
    and "lo' \<le> (1 - h\<^sup>2 / 2) * (1 - 1 / 10 ^ 15)"
    and "1 + 1 / 10 ^ 15 \<le> hi'"
  shows "between lo' hi' (Math_cos u)"
proof -
  from assms(1) obtain a where a: "u = Num a" "l \<le> \<bar>a\<bar>" "\<bar>a\<bar> \<le> h" by (rule absBetweenD)
  have h0: "0 \<le> h" using a(3) by linarith
  have "a\<^sup>2 \<le> h\<^sup>2" using a(3) h0 by (simp add: abs_le_square_iff [symmetric])
  then have 1: "1 - h\<^sup>2 / 2 \<le> cos a" using cos_lower [of a] by linarith
  have 2: "cos a \<le> 1" by simp
  have "h\<^sup>2 \<le> 1" using h0 assms(2) by (simp add: power_le_one_iff)
  then have 3: "0 \<le> 1 - h\<^sup>2 / 2" "1 / 2 \<le> 1 - h\<^sup>2 / 2" by simp_all
  have l: "lo' \<le> 0 \<or> (1 / 2 ^ 1000 \<le> 1 - h\<^sup>2 / 2 \<and> lo' \<le> (1 - h\<^sup>2 / 2) * (1 - 1 / 10 ^ 15))"
  proof -
    have "1 / 2 ^ 1000 \<le> (1 / 2 :: real)" by simp
    with 3(2) have "1 / 2 ^ 1000 \<le> 1 - h\<^sup>2 / 2" by linarith
    with assms(3) show ?thesis by simp
  qed
  have u: "1 * (1 + 1 / 10 ^ 15) \<le> hi'" using assms(4) by simp
  show ?thesis unfolding a(1) Math_cos.simps by (rule rnd_pos [OF 1 2 3(1) _ _ l u]) simp_all
qed

lemma fadd_between:
  assumes "between l1 h1 u" "between l2 h2 v" "0 \<le> l1 + l2"
    and "1 / 2 ^ 1000 \<le> h1 + h2" "h1 + h2 \<le> 2 ^ 1000"
    and "lo' \<le> 0 \<or> (1 / 2 ^ 1000 \<le> l1 + l2 \<and> lo' \<le> (l1 + l2) * (1 - 1 / 10 ^ 15))"
    and "(h1 + h2) * (1 + 1 / 10 ^ 15) \<le> hi'"
  shows "between lo' hi' (fadd u v)"
proof -
  from assms(1) obtain a where a: "u = Num a" "l1 \<le> a" "a \<le> h1" by (rule betweenD)
  from assms(2) obtain b where b: "v = Num b" "l2 \<le> b" "b \<le> h2" by (rule betweenD)
  have 1: "l1 + l2 \<le> a + b" using a b by linarith
  have 2: "a + b \<le> h1 + h2" using a b by linarith
  show ?thesis unfolding a(1) b(1) fadd.simps by (rule rnd_pos [OF 1 2 assms(3-7)])
qed

lemma sqrt_between:
  assumes "between l h u" "0 \<le> a" "a\<^sup>2 \<le> l" "0 \<le> b" "h \<le> b\<^sup>2"
    and "1 / 2 ^ 1000 \<le> b" "b \<le> 2 ^ 1000"
    and "lo' \<le> 0 \<or> (1 / 2 ^ 1000 \<le> a \<and> lo' \<le> a * (1 - 1 / 10 ^ 15))"
    and "b * (1 + 1 / 10 ^ 15) \<le> hi'"
  shows "between lo' hi' (Math_sqrt u)"
proof -
  from assms(1) obtain x where x: "u = Num x" "l \<le> x" "x \<le> h" by (rule betweenD)
  have "0 \<le> a\<^sup>2" by simp
  with assms(3) x(2) have x0: "0 \<le> x" by linarith
  have "a\<^sup>2 \<le> x" using assms(3) x(2) by linarith
  then have 1: "a \<le> sqrt x" by (rule real_le_rsqrt)
  have "x \<le> b\<^sup>2" using assms(5) x(3) by linarith
  then have 2: "sqrt x \<le> b" using assms(4) by (intro real_le_lsqrt) simp_all
  have s: "Math_sqrt (Num x) = rnd (sqrt x)" using x0 by simp
  show ?thesis unfolding x(1) s by (rule rnd_pos [OF 1 2 assms(2) assms(6-9)])
qed

lemma arcsin_ge_self:
  assumes "0 \<le> y" "y \<le> 1"
  shows "y \<le> arcsin y"
proof -
  have "arcsin 0 \<le> arcsin y" using assms by (intro arcsin_le_arcsin) simp_all
  then have "0 \<le> arcsin y" by simp
  then have "sin (arcsin y) \<le> arcsin y" by (rule sin_x_le_x)
  moreover have "sin (arcsin y) = y" using assms by (intro sin_arcsin) simp_all
  ultimately show ?thesis by simp
qed

lemma arcsin_le_of_sin:
  assumes "0 \<le> y" "y \<le> sin t" "0 \<le> t" "t \<le> pi / 2"
  shows "arcsin y \<le> t"
proof -
  have "y \<le> 1" using assms(2) sin_le_one [of t] by linarith
  then show ?thesis using assms by (subst arcsin_le_iff) simp_all
qed

lemma asin_between:
  assumes "between l h u" "0 \<le> l" "0 \<le> t" "t \<le> 1" "h \<le> t - t ^ 3 / 6"
    and "1 / 2 ^ 1000 \<le> t"
    and "lo' \<le> 0 \<or> (1 / 2 ^ 1000 \<le> l \<and> lo' \<le> l * (1 - 1 / 10 ^ 15))"
    and "t * (1 + 1 / 10 ^ 15) \<le> hi'"
  shows "between lo' hi' (Math_asin u)"
proof -
  from assms(1) obtain y where y: "u = Num y" "l \<le> y" "y \<le> h" by (rule betweenD)
  have y0: "0 \<le> y" using y(2) assms(2) by linarith
  have "t - t ^ 3 / 6 \<le> sin t" using assms(3) by (rule sin_lower)
  with y(3) assms(5) have ys: "y \<le> sin t" by linarith
  have "1 \<le> pi / 2" using pi_ge_two by simp
  with assms(4) have tp: "t \<le> pi / 2" by linarith
  have 2: "arcsin y \<le> t" using y0 ys assms(3) tp by (rule arcsin_le_of_sin)
  have y1: "y \<le> 1" using ys sin_le_one [of t] by linarith
  have "y \<le> arcsin y" using y0 y1 by (rule arcsin_ge_self)
  with y(2) have 1: "l \<le> arcsin y" by linarith
  have s: "Math_asin (Num y) = rnd (arcsin y)" using y0 y1 by simp
  have 3: "t \<le> 2 ^ 1000" using assms(4) by (rule order_trans) simp
  show ?thesis unfolding y(1) s by (rule rnd_pos [OF 1 2 assms(2) assms(6) 3 assms(7,8)])
qed


section \<open>The distance function\<close>

lemma rnd_nonneg_cases:
  assumes "0 \<le> x"
  shows "rnd x = Infinity \<or> (\<exists>r\<ge>0. rnd x = Num r)"
proof (cases "x = 0")
  case True
  then show ?thesis by (simp add: rnd_def)
next
  case False
  have "0 \<le> of_int (roundEven (x / ulp x)) * ulp x"
    using assms ulp_pos [of x] by (intro mult_nonneg_nonneg) (simp_all add: roundEven_nonneg)
  then show ?thesis using False assms by (simp add: rnd_def Let_def)
qed

lemma fmul_NaN_right [simp]: "fmul x NaN = NaN"
  by (cases x) simp_all

lemma fadd_NaN_right [simp]: "fadd x NaN = NaN"
  by (cases x) simp_all

lemma Math_sqrt_range:
  "Math_sqrt v = NaN \<or> Math_sqrt v = Infinity \<or> (\<exists>y\<ge>0. Math_sqrt v = Num y)"
proof (cases v)
  case (Num x)
  show ?thesis
  proof (cases "x < 0")
    case True
    then show ?thesis using Num by simp
  next
    case False
    then have "0 \<le> sqrt x" by simp
    from rnd_nonneg_cases [OF this] show ?thesis using Num False by simp
  qed
qed simp_all

lemma asin_sqrt_range:
  "Math_asin (Math_sqrt v) = NaN \<or> between 0 3 (Math_asin (Math_sqrt v))"
proof -
  from Math_sqrt_range [of v] show ?thesis
  proof (elim disjE exE conjE)
    fix y :: real assume y: "0 \<le> y" "Math_sqrt v = Num y"
    show ?thesis
    proof (cases "1 < y")
      case True
      then show ?thesis using y by simp
    next
      case False
      then have y1: "y \<le> 1" by simp
      have "arcsin 0 \<le> arcsin y" using y(1) y1 by (intro arcsin_le_arcsin) simp_all
      then have 1: "0 \<le> arcsin y" by simp
      have "arcsin y \<le> pi / 2" using arcsin_bounded [of y] y(1) y1 by simp
      moreover have "pi / 2 \<le> 2" using pi_less_4 by simp
      ultimately have 2: "arcsin y \<le> 2" by linarith
      have "between 0 3 (rnd (arcsin y))" by (rule rnd_pos [OF 1 2]) simp_all
      then show ?thesis using y y1 by simp
    qed
  qed simp_all
qed

lemma twoR_between: "between 6879 6881 (fmul (Num 2) (rnd 3440.065))"
proof -
  have "between 2 2 (Num 2)" by simp
  moreover have "between 3440 3440.1 (rnd 3440.065)"
    by (rule rnd_pos [where lo = "3440.065" and hi = "3440.065"]) simp_all
  ultimately show ?thesis by (rule fmul_between) simp_all
qed

lemma fmul_twoR_zero: "fmul (fmul (Num 2) (rnd 3440.065)) (Num 0) = Num 0"
proof -
  from twoR_between obtain k where "fmul (Num 2) (rnd 3440.065) = Num k" by (rule betweenD)
  then show ?thesis by (simp add: rnd_zero)
qed

text \<open>A computed distance is NaN or a finite number that is not negative.\<close>

lemma haversine_range:
  "haversine lat1 lon1 lat2 lon2 = NaN \<or> between 0 30000 (haversine lat1 lon1 lat2 lon2)"
proof -
  define v where "v = hav_a lat1 lon1 lat2 lon2"
  have h: "haversine lat1 lon1 lat2 lon2 = fmul (fmul (Num 2) (rnd 3440.065)) (Math_asin (Math_sqrt v))"
    by (simp add: haversine_def v_def Let_def)
  from asin_sqrt_range [of v] show ?thesis
  proof
    assume "Math_asin (Math_sqrt v) = NaN"
    then show ?thesis by (simp add: h)
  next
    assume "between 0 3 (Math_asin (Math_sqrt v))"
    with twoR_between have "between 0 30000 (fmul (fmul (Num 2) (rnd 3440.065)) (Math_asin (Math_sqrt v)))"
      by (rule fmul_between) simp_all
    then show ?thesis by (simp add: h)
  qed
qed

lemma distTo_range:
  "distTo qlat qlon w = NaN \<or> (\<exists>d\<ge>0. distTo qlat qlon w = Num d)"
proof -
  from haversine_range [of qlat qlon "Num (lat w)" "Num (lon w)"] show ?thesis
  proof
    assume "between 0 30000 (haversine qlat qlon (Num (lat w)) (Num (lon w)))"
    then obtain d where "haversine qlat qlon (Num (lat w)) (Num (lon w)) = Num d" "0 \<le> d"
      by (rule betweenD)
    then show ?thesis by (auto simp: distTo_def)
  qed (simp add: distTo_def)
qed

text \<open>A coordinate that is not finite makes every computed distance NaN.\<close>

lemma toRad_nonfinite:
  "toRad NaN = NaN" "toRad Infinity = Infinity" "toRad NegInfinity = NegInfinity"
  by (simp_all add: toRad_def Math_PI_def Let_def)

lemma haversine_nonfinite:
  assumes "lat1 \<in> {NaN, Infinity, NegInfinity} \<or> lon1 \<in> {NaN, Infinity, NegInfinity}"
  shows "haversine lat1 lon1 (Num la) (Num lo) = NaN"
proof -
  have a: "pow2 (Math_sin (fdiv (toRad (fsub (Num x) y)) 2)) = NaN"
    if "y \<in> {NaN, Infinity, NegInfinity}" for x y
    using that by (auto simp: fsub_def toRad_nonfinite)
  have "hav_a lat1 lon1 (Num la) (Num lo) = NaN"
    using assms a [of lat1 la] a [of lon1 lo] by (auto simp: hav_a_def Let_def)
  then show ?thesis by (simp add: haversine_def Let_def)
qed

text \<open>
  The radians of a latitude or a longitude, or of a difference of two, are finite, and so
  is the product of two cosines.
\<close>

lemma toRad_finite:
  assumes "\<bar>x\<bar> \<le> 360"
  shows "absBetween 0 7 (toRad (Num x))"
proof -
  have "absBetween 0 360 (Num x)" using assms by simp
  moreover have "absBetween Math_PI Math_PI (Num Math_PI)" by (simp add: Math_PI_def)
  ultimately have "absBetween 0 1200 (fmul (Num x) (Num Math_PI))"
    by (rule fmul_abs) (simp_all add: Math_PI_def)
  then show ?thesis unfolding toRad_def by (rule fdiv_abs) simp_all
qed

lemma cos_finite: "absBetween 0 2 (Math_cos (Num x))"
proof -
  have "0 \<le> \<bar>cos x\<bar>" "\<bar>cos x\<bar> \<le> 1" by simp_all
  then have "absBetween 0 2 (rnd (cos x))" by (rule rnd_abs) simp_all
  then show ?thesis by simp
qed

lemma cos_cos_finite:
  assumes "toRad lat1 = Num x1" "toRad lat2 = Num x2"
  shows "\<exists>k. fmul (Math_cos (toRad lat1)) (Math_cos (toRad lat2)) = Num k"
proof -
  have "absBetween 0 5 (fmul (Math_cos (Num x1)) (Math_cos (Num x2)))"
    using cos_finite cos_finite by (rule fmul_abs) simp_all
  then show ?thesis unfolding assms by (rule absBetweenD) blast
qed

lemma haversine_zero_terms:
  assumes "pow2 (Math_sin (fdiv (toRad (fsub lat2 lat1)) 2)) = Num 0"
    and "pow2 (Math_sin (fdiv (toRad (fsub lon2 lon1)) 2)) = Num 0"
    and "toRad lat1 = Num x1" "toRad lat2 = Num x2"
  shows "haversine lat1 lon1 lat2 lon2 = Num 0"
proof -
  from cos_cos_finite [OF assms(3,4)] obtain k
    where k: "fmul (Math_cos (toRad lat1)) (Math_cos (toRad lat2)) = Num k" ..
  have "hav_a lat1 lon1 lat2 lon2 = Num 0"
    by (simp add: hav_a_def Let_def assms(1,2) k rnd_zero)
  then have "haversine lat1 lon1 lat2 lon2
      = fmul (fmul (Num 2) (rnd 3440.065)) (Math_asin (Math_sqrt (Num 0)))"
    unfolding haversine_def Let_def by (rule arg_cong)
  also have "Math_asin (Math_sqrt (Num 0)) = Num 0" by (simp add: rnd_zero)
  finally show ?thesis by (simp only: fmul_twoR_zero)
qed

lemma half_sin_zero: "pow2 (Math_sin (fdiv (toRad (fsub (Num x) (Num x))) 2)) = Num 0"
  by (simp add: toRad_def rnd_zero)

lemma haversine_same:
  assumes "validLat la"
  shows "haversine (Num la) (Num lo) (Num la) (Num lo) = Num 0"
proof -
  have "\<bar>la\<bar> \<le> 360" using assms unfolding validLat_def by linarith
  from toRad_finite [OF this] obtain x where x: "toRad (Num la) = Num x" by (rule absBetweenD)
  from half_sin_zero half_sin_zero x x show ?thesis by (rule haversine_zero_terms)
qed

lemma distTo_same:
  assumes "validLat (lat w)"
  shows "distTo (Num (lat w)) (Num (lon w)) w = Num 0"
  unfolding distTo_def using assms by (rule haversine_same)


section \<open>Further bounds\<close>

lemma fsub_abs_le:
  assumes "between l h v" "a \<le> l"
    and "1 / 2 ^ 1000 \<le> h - a" "h - a \<le> 2 ^ 1000"
    and "lo' \<le> 0 \<or> (1 / 2 ^ 1000 \<le> l - a \<and> lo' \<le> (l - a) * (1 - 1 / 10 ^ 15))"
    and "(h - a) * (1 + 1 / 10 ^ 15) \<le> hi'"
  shows "absBetween lo' hi' (fsub (Num a) v)"
proof -
  from assms(1) obtain r where r: "v = Num r" "l \<le> r" "r \<le> h" by (rule betweenD)
  have 1: "l - a \<le> \<bar>a - r\<bar>" using r assms(2) by linarith
  have 2: "\<bar>a - r\<bar> \<le> h - a" using r assms(2) by linarith
  show ?thesis unfolding r(1) fsub_Num by (rule rnd_abs [OF 1 2 assms(3-6)])
qed

lemma fsub_abs_ge:
  assumes "between l h v" "h \<le> a"
    and "1 / 2 ^ 1000 \<le> a - l" "a - l \<le> 2 ^ 1000"
    and "lo' \<le> 0 \<or> (1 / 2 ^ 1000 \<le> a - h \<and> lo' \<le> (a - h) * (1 - 1 / 10 ^ 15))"
    and "(a - l) * (1 + 1 / 10 ^ 15) \<le> hi'"
  shows "absBetween lo' hi' (fsub (Num a) v)"
proof -
  from assms(1) obtain r where r: "v = Num r" "l \<le> r" "r \<le> h" by (rule betweenD)
  have 1: "a - h \<le> \<bar>a - r\<bar>" using r assms(2) by linarith
  have 2: "\<bar>a - r\<bar> \<le> a - l" using r assms(2) by linarith
  show ?thesis unfolding r(1) fsub_Num by (rule rnd_abs [OF 1 2 assms(3-6)])
qed

lemma fmul_zero_right:
  assumes "absBetween l h u" "v = Num 0"
  shows "fmul u v = Num 0"
proof -
  from assms(1) obtain k where "u = Num k" by (rule absBetweenD)
  then show ?thesis using assms(2) by (simp add: rnd_zero)
qed

lemma asin_unit:
  assumes "between l h u" "0 \<le> l" "h \<le> 1"
    and "lo' \<le> 0 \<or> (1 / 2 ^ 1000 \<le> l \<and> lo' \<le> l * (1 - 1 / 10 ^ 15))"
  shows "between lo' 3 (Math_asin u)"
proof -
  from assms(1) obtain y where y: "u = Num y" "l \<le> y" "y \<le> h" by (rule betweenD)
  have y0: "0 \<le> y" and y1: "y \<le> 1" using y assms(2,3) by linarith+
  have "y \<le> arcsin y" using y0 y1 by (rule arcsin_ge_self)
  with y(2) have 1: "l \<le> arcsin y" by linarith
  have "arcsin y \<le> pi / 2" using arcsin_bounded [of y] y0 y1 by simp
  moreover have "pi / 2 \<le> 2" using pi_less_4 by simp
  ultimately have 2: "arcsin y \<le> 2" by linarith
  have s: "Math_asin (Num y) = rnd (arcsin y)" using y0 y1 by simp
  show ?thesis unfolding y(1) s by (rule rnd_pos [OF 1 2 assms(2) _ _ assms(4)]) simp_all
qed

lemma pow2_underflow:
  assumes "absBetween l h u" "h * h < 1 / 2 ^ 1075"
  shows "pow2 u = Num 0"
proof -
  from assms(1) obtain a where a: "u = Num a" "l \<le> \<bar>a\<bar>" "\<bar>a\<bar> \<le> h" by (rule absBetweenD)
  have "\<bar>a\<bar> * \<bar>a\<bar> \<le> h * h" using a by (intro mult_mono) simp_all
  then have "\<bar>a * a\<bar> \<le> h * h" by (simp add: abs_mult)
  moreover have "(1::real) / 2 ^ 1075 = 2 powr (- 1075)" by (simp add: powr_minus field_simps)
  ultimately have "\<bar>a * a\<bar> < 2 powr (- 1075)" using assms(2) by linarith
  then have "rnd (a * a) = Num 0" by (rule rnd_underflow)
  then show ?thesis by (simp add: a(1))
qed


lemma cos_abs_any:
  assumes "absBetween l h u"
  shows "absBetween 0 2 (Math_cos u)"
proof -
  from assms obtain x where "u = Num x" by (rule absBetweenD)
  then show ?thesis using cos_finite [of x] by simp
qed

lemma Math_PI_abs: "absBetween Math_PI Math_PI (Num Math_PI)"
  by (simp add: Math_PI_def)

lemma twoR_tight: "between (6880129 / 10 ^ 3) (6880131 / 10 ^ 3) (fmul (Num 2) (rnd 3440.065))"
proof -
  have "between 2 2 (Num 2)" by simp
  moreover have "between 3440.0649 3440.0651 (rnd 3440.065)"
    by (rule rnd_pos [where lo = "3440.065" and hi = "3440.065"]) simp_all
  ultimately show ?thesis by (rule fmul_between) simp_all
qed


section \<open>\<^verbatim>\<open>Math.PI\<close> lies below \<open>\<pi>\<close>\<close>





section \<open>The scan finds the first waypoint of least distance\<close>

lemma scan_Num_cases:
  "(scan qlat qlon wps (Some b, Num bd) = (Some b, Num bd) \<and>
      (\<forall>x\<in>set wps. \<forall>y. distTo qlat qlon x = Num y \<longrightarrow> bd \<le> y))
   \<or> (\<exists>pre w post m. wps = pre @ w # post \<and> distTo qlat qlon w = Num m \<and>
        scan qlat qlon wps (Some b, Num bd) = (Some w, Num m) \<and> m < bd \<and>
        (\<forall>x\<in>set pre. \<forall>y. distTo qlat qlon x = Num y \<longrightarrow> m < y) \<and>
        (\<forall>x\<in>set post. \<forall>y. distTo qlat qlon x = Num y \<longrightarrow> m \<le> y))"
proof (induction wps arbitrary: b bd)
  case Nil
  show ?case by simp
next
  case (Cons w0 wps)
  let ?D = "distTo qlat qlon"
  show ?case
  proof (cases "lt (?D w0) (Num bd)")
    case True
    then obtain d where d: "?D w0 = Num d" and dlt: "d < bd"
      using distTo_range [of qlat qlon w0] by (cases "?D w0") auto
    have step: "scan qlat qlon (w0 # wps) (Some b, Num bd) = scan qlat qlon wps (Some w0, Num d)"
      using d dlt by (simp add: distTo_def)
    from Cons.IH [of w0 d] show ?thesis
    proof (elim disjE exE conjE)
      assume same: "scan qlat qlon wps (Some w0, Num d) = (Some w0, Num d)"
        and ge: "\<forall>x\<in>set wps. \<forall>y. ?D x = Num y \<longrightarrow> d \<le> y"
      have "w0 # wps = [] @ w0 # wps" by simp
      moreover have "\<forall>x\<in>set ([]::waypoint list). \<forall>y. ?D x = Num y \<longrightarrow> d < y" by simp
      ultimately show ?thesis using same ge d dlt step by metis
    next
      fix pre w post m
      assume split: "wps = pre @ w # post" and dw: "?D w = Num m"
        and res: "scan qlat qlon wps (Some w0, Num d) = (Some w, Num m)"
        and lt: "m < d"
        and pre: "\<forall>x\<in>set pre. \<forall>y. ?D x = Num y \<longrightarrow> m < y"
        and post: "\<forall>x\<in>set post. \<forall>y. ?D x = Num y \<longrightarrow> m \<le> y"
      have "w0 # wps = (w0 # pre) @ w # post" using split by simp
      moreover have "\<forall>x\<in>set (w0 # pre). \<forall>y. ?D x = Num y \<longrightarrow> m < y" using lt pre d by simp
      moreover have "m < bd" using lt dlt by simp
      ultimately show ?thesis using res post step dw by metis
    qed
  next
    case False
    then have step: "scan qlat qlon (w0 # wps) (Some b, Num bd) = scan qlat qlon wps (Some b, Num bd)"
      by (simp add: distTo_def)
    have w0: "\<forall>y. ?D w0 = Num y \<longrightarrow> bd \<le> y" using False by auto
    from Cons.IH [of b bd] show ?thesis
    proof (elim disjE exE conjE)
      assume same: "scan qlat qlon wps (Some b, Num bd) = (Some b, Num bd)"
        and ge: "\<forall>x\<in>set wps. \<forall>y. ?D x = Num y \<longrightarrow> bd \<le> y"
      then show ?thesis using w0 step by simp
    next
      fix pre w post m
      assume split: "wps = pre @ w # post" and dw: "?D w = Num m"
        and res: "scan qlat qlon wps (Some b, Num bd) = (Some w, Num m)"
        and lt: "m < bd"
        and pre: "\<forall>x\<in>set pre. \<forall>y. ?D x = Num y \<longrightarrow> m < y"
        and post: "\<forall>x\<in>set post. \<forall>y. ?D x = Num y \<longrightarrow> m \<le> y"
      have "w0 # wps = (w0 # pre) @ w # post" using split by simp
      moreover have "\<forall>x\<in>set (w0 # pre). \<forall>y. ?D x = Num y \<longrightarrow> m < y"
        using lt pre w0 by auto
      ultimately show ?thesis using res post step lt dw by metis
    qed
  qed
qed

lemma nearest_Nil: "nearest qlat qlon [] = (None, Infinity)"
  by (simp add: nearest_def)

lemma nearest_first_least:
  "(nearest qlat qlon wps = (None, Infinity) \<and> (\<forall>x\<in>set wps. \<forall>y. distTo qlat qlon x \<noteq> Num y))
   \<or> (\<exists>pre w post m. wps = pre @ w # post \<and> distTo qlat qlon w = Num m \<and>
        nearest qlat qlon wps = (Some w, Num m) \<and>
        (\<forall>x\<in>set pre. \<forall>y. distTo qlat qlon x = Num y \<longrightarrow> m < y) \<and>
        (\<forall>x\<in>set post. \<forall>y. distTo qlat qlon x = Num y \<longrightarrow> m \<le> y))"
proof (induction wps)
  case Nil
  show ?case by (simp add: nearest_Nil)
next
  case (Cons w0 wps)
  let ?D = "distTo qlat qlon"
  show ?case
  proof (cases "lt (?D w0) Infinity")
    case True
    then obtain d where d: "?D w0 = Num d"
      using distTo_range [of qlat qlon w0] by (cases "?D w0") auto
    have step: "nearest qlat qlon (w0 # wps) = scan qlat qlon wps (Some w0, Num d)"
      using d by (simp add: nearest_def distTo_def)
    from scan_Num_cases [of qlat qlon wps w0 d] show ?thesis
    proof (elim disjE exE conjE)
      assume same: "scan qlat qlon wps (Some w0, Num d) = (Some w0, Num d)"
        and ge: "\<forall>x\<in>set wps. \<forall>y. ?D x = Num y \<longrightarrow> d \<le> y"
      have "w0 # wps = [] @ w0 # wps" by simp
      moreover have "\<forall>x\<in>set ([]::waypoint list). \<forall>y. ?D x = Num y \<longrightarrow> d < y" by simp
      ultimately show ?thesis using same ge d step by metis
    next
      fix pre w post m
      assume split: "wps = pre @ w # post" and dw: "?D w = Num m"
        and res: "scan qlat qlon wps (Some w0, Num d) = (Some w, Num m)"
        and lt: "m < d"
        and pre: "\<forall>x\<in>set pre. \<forall>y. ?D x = Num y \<longrightarrow> m < y"
        and post: "\<forall>x\<in>set post. \<forall>y. ?D x = Num y \<longrightarrow> m \<le> y"
      have "w0 # wps = (w0 # pre) @ w # post" using split by simp
      moreover have "\<forall>x\<in>set (w0 # pre). \<forall>y. ?D x = Num y \<longrightarrow> m < y" using lt pre d by simp
      ultimately show ?thesis using res post step dw by metis
    qed
  next
    case False
    then have w0: "\<forall>y. ?D w0 \<noteq> Num y" by (cases "?D w0") simp_all
    have step: "nearest qlat qlon (w0 # wps) = nearest qlat qlon wps"
      using False by (simp add: nearest_def distTo_def)
    from Cons.IH show ?thesis
    proof (elim disjE exE conjE)
      assume "nearest qlat qlon wps = (None, Infinity)"
        and "\<forall>x\<in>set wps. \<forall>y. ?D x \<noteq> Num y"
      then show ?thesis using w0 step by simp
    next
      fix pre w post m
      assume split: "wps = pre @ w # post" and dw: "?D w = Num m"
        and res: "nearest qlat qlon wps = (Some w, Num m)"
        and pre: "\<forall>x\<in>set pre. \<forall>y. ?D x = Num y \<longrightarrow> m < y"
        and post: "\<forall>x\<in>set post. \<forall>y. ?D x = Num y \<longrightarrow> m \<le> y"
      have "w0 # wps = (w0 # pre) @ w # post" using split by simp
      moreover have "\<forall>x\<in>set (w0 # pre). \<forall>y. ?D x = Num y \<longrightarrow> m < y"
        using pre w0 by auto
      ultimately show ?thesis using res post step dw by metis
    qed
  qed
qed

section \<open>A distance that is a number\<close>




section \<open>The matcher\<close>

lemma nearest_least:
  "(nearest qlat qlon wps = (None, Infinity) \<and> (\<forall>x\<in>set wps. \<forall>y. distTo qlat qlon x \<noteq> Num y))
   \<or> (\<exists>w\<in>set wps. \<exists>m. distTo qlat qlon w = Num m \<and> nearest qlat qlon wps = (Some w, Num m) \<and>
        (\<forall>x\<in>set wps. \<forall>y. distTo qlat qlon x = Num y \<longrightarrow> m \<le> y))"
proof -
  let ?D = "distTo qlat qlon"
  from nearest_first_least [of qlat qlon wps] show ?thesis
  proof (elim disjE exE conjE)
    assume "nearest qlat qlon wps = (None, Infinity)" "\<forall>x\<in>set wps. \<forall>y. ?D x \<noteq> Num y"
    then show ?thesis by blast
  next
    fix pre w post m
    assume split: "wps = pre @ w # post" and dw: "?D w = Num m"
      and res: "nearest qlat qlon wps = (Some w, Num m)"
      and pre: "\<forall>x\<in>set pre. \<forall>y. ?D x = Num y \<longrightarrow> m < y"
      and post: "\<forall>x\<in>set post. \<forall>y. ?D x = Num y \<longrightarrow> m \<le> y"
    have "w \<in> set wps" using split by simp
    moreover have "\<forall>x\<in>set wps. \<forall>y. ?D x = Num y \<longrightarrow> m \<le> y"
    proof (intro ballI allI impI)
      fix x y assume x: "x \<in> set wps" and y: "?D x = Num y"
      from x split have "x \<in> set pre \<or> x = w \<or> x \<in> set post" by auto
      then show "m \<le> y" using pre post dw y by (auto simp: less_imp_le)
    qed
    ultimately show ?thesis using dw res by blast
  qed
qed

lemma nearest_pair_tie:
  assumes "distTo qlat qlon a = Num d" "distTo qlat qlon b = Num d"
  shows "nearest qlat qlon [a, b] = (Some a, Num d)"
  using assms by (simp add: nearest_def distTo_def)

lemma nearest_pair_first:
  assumes "between l1 h1 (distTo qlat qlon a)" "between l2 h2 (distTo qlat qlon b)" "h1 \<le> l2"
  shows "nearest qlat qlon [a, b] = (Some a, distTo qlat qlon a)"
proof -
  from assms(1) obtain da where da: "distTo qlat qlon a = Num da" "l1 \<le> da" "da \<le> h1"
    by (rule betweenD)
  from assms(2) obtain db where db: "distTo qlat qlon b = Num db" "l2 \<le> db" "db \<le> h2"
    by (rule betweenD)
  have "\<not> db < da" using da db assms(3) by linarith
  then have "nearest qlat qlon [a, b] = (Some a, Num da)"
    using da(1) db(1) by (simp add: nearest_def distTo_def)
  then show ?thesis by (simp add: da(1))
qed

lemma nearest_pair_second:
  assumes "between l1 h1 (distTo qlat qlon a)" "between l2 h2 (distTo qlat qlon b)" "h2 < l1"
  shows "nearest qlat qlon [a, b] = (Some b, distTo qlat qlon b)"
proof -
  from assms(1) obtain da where da: "distTo qlat qlon a = Num da" "l1 \<le> da" "da \<le> h1"
    by (rule betweenD)
  from assms(2) obtain db where db: "distTo qlat qlon b = Num db" "l2 \<le> db" "db \<le> h2"
    by (rule betweenD)
  have "db < da" using da db assms(3) by linarith
  then have "nearest qlat qlon [a, b] = (Some b, Num db)"
    using da(1) db(1) by (simp add: nearest_def distTo_def)
  then show ?thesis by (simp add: db(1))
qed

section \<open>Worked distances\<close>

text \<open>
  The distances of the examples, bounded operation by operation: each step bounds the
  exact result of one operation from the bounds of its operands, and widens the bounds
  by the rounding error.
\<close>

lemma haversine_example_first:
  "between (849099 / 10 ^ 5) (849101 / 10 ^ 5) (haversine (rnd (1 / 10)) (rnd (1 / 10)) (Num 0) (Num 0))"
proof -
  let ?q = "rnd (1 / 10)"
  have q: "between (9999999999 / 10 ^ 11) (1000000001 / 10 ^ 10) ?q"
    by (rule rnd_pos [where lo = "(1 / 10)" and hi = "(1 / 10)"]) simp_all
  let ?dLat = "fsub (Num 0) ?q"
  have dLat: "absBetween (9999999998 / 10 ^ 11) (1000000002 / 10 ^ 10) ?dLat"
    by (rule fsub_abs_le [OF q]) simp_all
  let ?rLatPi = "fmul ?dLat (Num Math_PI)"
  have rLatPi: "absBetween (3141592652 / 10 ^ 10) (314159266 / 10 ^ 9) ?rLatPi"
    by (rule fmul_abs [OF dLat Math_PI_abs]) (simp_all add: Math_PI_def)
  let ?rLat = "fdiv ?rLatPi 180"
  have rLat: "absBetween (1745329251 / 10 ^ 12) (1745329256 / 10 ^ 12) ?rLat"
    by (rule fdiv_abs [OF rLatPi]) simp_all
  let ?hLat = "fdiv ?rLat 2"
  have hLat: "absBetween (8726646254 / 10 ^ 13) (8726646281 / 10 ^ 13) ?hLat"
    by (rule fdiv_abs [OF rLat]) simp_all
  let ?sLat = "Math_sin ?hLat"
  have sLat: "absBetween (8726645146 / 10 ^ 13) (8726646282 / 10 ^ 13) ?sLat"
    by (rule sin_abs [OF hLat]) (simp_all add: power2_eq_square)
  let ?pLat = "pow2 ?sLat"
  have pLat: "between (761543355 / 10 ^ 15) (7615435534 / 10 ^ 16) ?pLat"
    by (rule pow2_between [OF sLat]) simp_all
  have q': "absBetween (9999999999 / 10 ^ 11) (1000000001 / 10 ^ 10) ?q"
    by (rule between_abs [OF q]) simp
  let ?r1Pi = "fmul ?q (Num Math_PI)"
  have r1Pi: "absBetween (3141592653 / 10 ^ 10) (3141592657 / 10 ^ 10) ?r1Pi"
    by (rule fmul_abs [OF q' Math_PI_abs]) (simp_all add: Math_PI_def)
  let ?r1 = "fdiv ?r1Pi 180"
  have r1: "absBetween (1745329251 / 10 ^ 12) (1745329254 / 10 ^ 12) ?r1"
    by (rule fdiv_abs [OF r1Pi]) simp_all
  let ?c1 = "Math_cos ?r1"
  have c1: "between (9999984769 / 10 ^ 10) (1000000000000001 / 10 ^ 15) ?c1"
    by (rule cos_between [OF r1]) (simp_all add: power2_eq_square)
  let ?r2 = "fdiv (fmul (Num 0) (Num Math_PI)) 180"
  have r2: "?r2 = Num 0"
    by (simp add: toRad_def rnd_zero)
  let ?c2 = "Math_cos ?r2"
  have c2: "between (9999999999 / 10 ^ 10) (1000000001 / 10 ^ 9) ?c2"
    unfolding r2 Math_cos.simps cos_zero by (rule rnd_pos [where lo = 1 and hi = 1]) simp_all
  let ?cc = "fmul ?c1 ?c2"
  have cc: "between (9999984767 / 10 ^ 10) (1000000002 / 10 ^ 9) ?cc"
    by (rule fmul_between [OF c1 c2]) simp_all
  let ?t = "fmul ?cc ?pLat"
  have t: "between (7615421949 / 10 ^ 16) (761543555 / 10 ^ 15) ?t"
    by (rule fmul_between [OF cc pLat]) simp_all
  let ?a = "fadd ?pLat ?t"
  have a: "between (1523085549 / 10 ^ 15) (1523087109 / 10 ^ 15) ?a"
    by (rule fadd_between [OF pLat t]) simp_all
  let ?y = "Math_sqrt ?a"
  have y: "between (123413352 / 10 ^ 11) (1234134155 / 10 ^ 12) ?y"
    by (rule sqrt_between [OF a, where a = "(1234133521 / 10 ^ 12)" and b = "(1234134154 / 10 ^ 12)"]) (simp_all add: power2_eq_square)
  let ?z = "Math_asin ?y"
  have z: "between (1234133519 / 10 ^ 12) (1234134532 / 10 ^ 12) ?z"
    by (rule asin_between [OF y, where t = "(1234134531 / 10 ^ 12)"]) (simp_all add: power3_eq_cube)
  let ?twoR = "fmul (Num 2) (rnd 3440.065)"
  have twoR: "between (6880129 / 10 ^ 3) (6880131 / 10 ^ 3) ?twoR"
    by (rule twoR_tight)
  let ?d = "fmul ?twoR ?z"
  have d: "between (8490997813 / 10 ^ 9) (8491007252 / 10 ^ 9) ?d"
    by (rule fmul_between [OF twoR z]) simp_all
  have "between (849099 / 10 ^ 5) (849101 / 10 ^ 5) ?d"
    by (rule between_mono [OF d]) simp_all
  then show ?thesis unfolding haversine_def hav_a_def toRad_def Let_def .
qed

lemma haversine_example_second:
  "between (764152 / 10 ^ 4) (76421 / 10 ^ 3) (haversine (rnd (1 / 10)) (rnd (1 / 10)) (Num 1) (Num 1))"
proof -
  let ?q = "rnd (1 / 10)"
  have q: "between (9999999999 / 10 ^ 11) (1000000001 / 10 ^ 10) ?q"
    by (rule rnd_pos [where lo = "(1 / 10)" and hi = "(1 / 10)"]) simp_all
  let ?dLat = "fsub (Num 1) ?q"
  have dLat: "absBetween (8999999998 / 10 ^ 10) (9000000001 / 10 ^ 10) ?dLat"
    by (rule fsub_abs_ge [OF q]) simp_all
  let ?rLatPi = "fmul ?dLat (Num Math_PI)"
  have rLatPi: "absBetween (2827433387 / 10 ^ 9) (2827433389 / 10 ^ 9) ?rLatPi"
    by (rule fmul_abs [OF dLat Math_PI_abs]) (simp_all add: Math_PI_def)
  let ?rLat = "fdiv ?rLatPi 180"
  have rLat: "absBetween (1570796326 / 10 ^ 11) (1570796328 / 10 ^ 11) ?rLat"
    by (rule fdiv_abs [OF rLatPi]) simp_all
  let ?hLat = "fdiv ?rLat 2"
  have hLat: "absBetween (7853981629 / 10 ^ 12) (7853981641 / 10 ^ 12) ?hLat"
    by (rule fdiv_abs [OF rLat]) simp_all
  let ?sLat = "Math_sin ?hLat"
  have sLat: "absBetween (7853900883 / 10 ^ 12) (7853981642 / 10 ^ 12) ?sLat"
    by (rule sin_abs [OF hLat]) (simp_all add: power2_eq_square)
  let ?pLat = "pow2 ?sLat"
  have pLat: "between (6168375907 / 10 ^ 14) (6168502764 / 10 ^ 14) ?pLat"
    by (rule pow2_between [OF sLat]) simp_all
  have q': "absBetween (9999999999 / 10 ^ 11) (1000000001 / 10 ^ 10) ?q"
    by (rule between_abs [OF q]) simp
  let ?r1Pi = "fmul ?q (Num Math_PI)"
  have r1Pi: "absBetween (3141592653 / 10 ^ 10) (3141592657 / 10 ^ 10) ?r1Pi"
    by (rule fmul_abs [OF q' Math_PI_abs]) (simp_all add: Math_PI_def)
  let ?r1 = "fdiv ?r1Pi 180"
  have r1: "absBetween (1745329251 / 10 ^ 12) (1745329254 / 10 ^ 12) ?r1"
    by (rule fdiv_abs [OF r1Pi]) simp_all
  let ?c1 = "Math_cos ?r1"
  have c1: "between (9999984769 / 10 ^ 10) (1000000000000001 / 10 ^ 15) ?c1"
    by (rule cos_between [OF r1]) (simp_all add: power2_eq_square)
  let ?lat2 = "Num 1"
  have lat2: "between 1 1 ?lat2"
    by simp
  have lat2': "absBetween 1 1 ?lat2"
    by (rule between_abs [OF lat2]) simp
  let ?r2Pi = "fmul ?lat2 (Num Math_PI)"
  have r2Pi: "absBetween (3141592653 / 10 ^ 9) (3141592654 / 10 ^ 9) ?r2Pi"
    by (rule fmul_abs [OF lat2' Math_PI_abs]) (simp_all add: Math_PI_def)
  let ?r2 = "fdiv ?r2Pi 180"
  have r2: "absBetween (1745329251 / 10 ^ 11) (1745329253 / 10 ^ 11) ?r2"
    by (rule fdiv_abs [OF r2Pi]) simp_all
  let ?c2 = "Math_cos ?r2"
  have c2: "between (9998476912 / 10 ^ 10) (1000000000000001 / 10 ^ 15) ?c2"
    by (rule cos_between [OF r2]) (simp_all add: power2_eq_square)
  let ?cc = "fmul ?c1 ?c2"
  have cc: "between (9998461683 / 10 ^ 10) (1000000001 / 10 ^ 9) ?cc"
    by (rule fmul_between [OF c1 c2]) simp_all
  let ?t = "fmul ?cc ?pLat"
  have t: "between (6167427015 / 10 ^ 14) (6168502771 / 10 ^ 14) ?t"
    by (rule fmul_between [OF cc pLat]) simp_all
  let ?a = "fadd ?pLat ?t"
  have a: "between (1233580292 / 10 ^ 13) (1233700554 / 10 ^ 13) ?a"
    by (rule fadd_between [OF pLat t]) simp_all
  let ?y = "Math_sqrt ?a"
  have y: "between (1110666597 / 10 ^ 11) (1110720738 / 10 ^ 11) ?y"
    by (rule sqrt_between [OF a, where a = "(1110666598 / 10 ^ 11)" and b = "(1110720737 / 10 ^ 11)"]) (simp_all add: power2_eq_square)
  let ?z = "Math_asin ?y"
  have z: "between (1110666596 / 10 ^ 11) (1110748145 / 10 ^ 11) ?z"
    by (rule asin_between [OF y, where t = "(1110748144 / 10 ^ 11)"]) (simp_all add: power3_eq_cube)
  let ?twoR = "fmul (Num 2) (rnd 3440.065)"
  have twoR: "between (6880129 / 10 ^ 3) (6880131 / 10 ^ 3) ?twoR"
    by (rule twoR_tight)
  let ?d = "fmul ?twoR ?z"
  have d: "between (7641529456 / 10 ^ 8) (7642092746 / 10 ^ 8) ?d"
    by (rule fmul_between [OF twoR z]) simp_all
  have "between (764152 / 10 ^ 4) (76421 / 10 ^ 3) ?d"
    by (rule between_mono [OF d]) simp_all
  then show ?thesis unfolding haversine_def hav_a_def toRad_def Let_def .
qed

lemma haversine_tie_first:
  "between (520688 / 10 ^ 22) (520769 / 10 ^ 22) (haversine (Num 1) (Num (1 / 2 ^ 61)) (Num 1) (Num (- (1 / 2 ^ 61))))"
proof -
  let ?qlat = "Num 1"
  have qlat: "between 1 1 ?qlat"
    by simp
  let ?qlon = "Num (1 / 2 ^ 61)"
  have qlon: "between (1 / 2 ^ 61) (1 / 2 ^ 61) ?qlon"
    by simp
  let ?pLat = "pow2 (Math_sin (fdiv (fdiv (fmul (fsub (Num 1) ?qlat) (Num Math_PI)) 180) 2))"
  have pLat: "?pLat = Num 0"
    by (simp add: toRad_def rnd_zero)
  have qlat': "absBetween 1 1 ?qlat"
    by (rule between_abs [OF qlat]) simp
  let ?r1Pi = "fmul ?qlat (Num Math_PI)"
  have r1Pi: "absBetween (3141592653 / 10 ^ 9) (3141592654 / 10 ^ 9) ?r1Pi"
    by (rule fmul_abs [OF qlat' Math_PI_abs]) (simp_all add: Math_PI_def)
  let ?r1 = "fdiv ?r1Pi 180"
  have r1: "absBetween (1745329251 / 10 ^ 11) (1745329253 / 10 ^ 11) ?r1"
    by (rule fdiv_abs [OF r1Pi]) simp_all
  let ?c1 = "Math_cos ?r1"
  have c1: "between (9998476912 / 10 ^ 10) (1000000000000001 / 10 ^ 15) ?c1"
    by (rule cos_between [OF r1]) (simp_all add: power2_eq_square)
  let ?cc = "fmul ?c1 ?c1"
  have cc: "between (9996954055 / 10 ^ 10) (1000000001 / 10 ^ 9) ?cc"
    by (rule fmul_between [OF c1 c1]) simp_all
  let ?dLon = "fsub (Num (- (1 / 2 ^ 61))) ?qlon"
  have dLon: "absBetween (8673617379 / 10 ^ 28) (867361738 / 10 ^ 27) ?dLon"
    by (rule fsub_abs_le [OF qlon]) simp_all
  let ?rLonPi = "fmul ?dLon (Num Math_PI)"
  have rLonPi: "absBetween (2724897263 / 10 ^ 27) (2724897265 / 10 ^ 27) ?rLonPi"
    by (rule fmul_abs [OF dLon Math_PI_abs]) (simp_all add: Math_PI_def)
  let ?rLon = "fdiv ?rLonPi 180"
  have rLon: "absBetween (1513831812 / 10 ^ 29) (1513831814 / 10 ^ 29) ?rLon"
    by (rule fdiv_abs [OF rLonPi]) simp_all
  let ?hLon = "fdiv ?rLon 2"
  have hLon: "absBetween (7569159059 / 10 ^ 30) (7569159071 / 10 ^ 30) ?hLon"
    by (rule fdiv_abs [OF rLon]) simp_all
  let ?sLon = "Math_sin ?hLon"
  have sLon: "absBetween (7569159058 / 10 ^ 30) (7569159072 / 10 ^ 30) ?sLon"
    by (rule sin_abs [OF hLon]) (simp_all add: power2_eq_square)
  let ?pLon = "pow2 ?sLon"
  have pLon: "between (5729216884 / 10 ^ 50) (5729216906 / 10 ^ 50) ?pLon"
    by (rule pow2_between [OF sLon]) simp_all
  let ?t = "fmul ?cc ?pLon"
  have t: "between (5727471796 / 10 ^ 50) (5729216912 / 10 ^ 50) ?t"
    by (rule fmul_between [OF cc pLon]) simp_all
  have pLat': "between 0 0 ?pLat"
    unfolding pLat by simp
  let ?a = "fadd ?pLat ?t"
  have a: "between (5727471795 / 10 ^ 50) (5729216913 / 10 ^ 50) ?a"
    by (rule fadd_between [OF pLat' t]) simp_all
  let ?y = "Math_sqrt ?a"
  have y: "between (7568006206 / 10 ^ 30) (7569159078 / 10 ^ 30) ?y"
    by (rule sqrt_between [OF a, where a = "(7568006207 / 10 ^ 30)" and b = "(7569159077 / 10 ^ 30)"]) (simp_all add: power2_eq_square)
  let ?z = "Math_asin ?y"
  have z: "between (7568006205 / 10 ^ 30) (756915908 / 10 ^ 29) ?z"
    by (rule asin_between [OF y, where t = "(7569159079 / 10 ^ 30)"]) (simp_all add: power3_eq_cube)
  let ?twoR = "fmul (Num 2) (rnd 3440.065)"
  have twoR: "between (6880129 / 10 ^ 3) (6880131 / 10 ^ 3) ?twoR"
    by (rule twoR_tight)
  let ?d = "fmul ?twoR ?z"
  have d: "between (5206885896 / 10 ^ 26) (5207680604 / 10 ^ 26) ?d"
    by (rule fmul_between [OF twoR z]) simp_all
  have "between (520688 / 10 ^ 22) (520769 / 10 ^ 22) ?d"
    by (rule between_mono [OF d]) simp_all
  then show ?thesis unfolding haversine_def hav_a_def toRad_def Let_def .
qed

lemma haversine_tie_second:
  "between (260344 / 10 ^ 22) (260385 / 10 ^ 22) (haversine (Num 1) (Num (1 / 2 ^ 61)) (Num 1) (Num 0))"
proof -
  let ?qlat = "Num 1"
  have qlat: "between 1 1 ?qlat"
    by simp
  let ?qlon = "Num (1 / 2 ^ 61)"
  have qlon: "between (1 / 2 ^ 61) (1 / 2 ^ 61) ?qlon"
    by simp
  let ?pLat = "pow2 (Math_sin (fdiv (fdiv (fmul (fsub (Num 1) ?qlat) (Num Math_PI)) 180) 2))"
  have pLat: "?pLat = Num 0"
    by (simp add: toRad_def rnd_zero)
  have qlat': "absBetween 1 1 ?qlat"
    by (rule between_abs [OF qlat]) simp
  let ?r1Pi = "fmul ?qlat (Num Math_PI)"
  have r1Pi: "absBetween (3141592653 / 10 ^ 9) (3141592654 / 10 ^ 9) ?r1Pi"
    by (rule fmul_abs [OF qlat' Math_PI_abs]) (simp_all add: Math_PI_def)
  let ?r1 = "fdiv ?r1Pi 180"
  have r1: "absBetween (1745329251 / 10 ^ 11) (1745329253 / 10 ^ 11) ?r1"
    by (rule fdiv_abs [OF r1Pi]) simp_all
  let ?c1 = "Math_cos ?r1"
  have c1: "between (9998476912 / 10 ^ 10) (1000000000000001 / 10 ^ 15) ?c1"
    by (rule cos_between [OF r1]) (simp_all add: power2_eq_square)
  let ?cc = "fmul ?c1 ?c1"
  have cc: "between (9996954055 / 10 ^ 10) (1000000001 / 10 ^ 9) ?cc"
    by (rule fmul_between [OF c1 c1]) simp_all
  let ?dLon = "fsub (Num 0) ?qlon"
  have dLon: "absBetween (4336808689 / 10 ^ 28) (433680869 / 10 ^ 27) ?dLon"
    by (rule fsub_abs_le [OF qlon]) simp_all
  let ?rLonPi = "fmul ?dLon (Num Math_PI)"
  have rLonPi: "absBetween (1362448631 / 10 ^ 27) (1362448633 / 10 ^ 27) ?rLonPi"
    by (rule fmul_abs [OF dLon Math_PI_abs]) (simp_all add: Math_PI_def)
  let ?rLon = "fdiv ?rLonPi 180"
  have rLon: "absBetween (7569159061 / 10 ^ 30) (7569159073 / 10 ^ 30) ?rLon"
    by (rule fdiv_abs [OF rLonPi]) simp_all
  let ?hLon = "fdiv ?rLon 2"
  have hLon: "absBetween (378457953 / 10 ^ 29) (3784579537 / 10 ^ 30) ?hLon"
    by (rule fdiv_abs [OF rLon]) simp_all
  let ?sLon = "Math_sin ?hLon"
  have sLon: "absBetween (3784579529 / 10 ^ 30) (3784579538 / 10 ^ 30) ?sLon"
    by (rule sin_abs [OF hLon]) (simp_all add: power2_eq_square)
  let ?pLon = "pow2 ?sLon"
  have pLon: "between (1432304221 / 10 ^ 50) (1432304228 / 10 ^ 50) ?pLon"
    by (rule pow2_between [OF sLon]) simp_all
  let ?t = "fmul ?cc ?pLon"
  have t: "between (1431867949 / 10 ^ 50) (143230423 / 10 ^ 49) ?t"
    by (rule fmul_between [OF cc pLon]) simp_all
  have pLat': "between 0 0 ?pLat"
    unfolding pLat by simp
  let ?a = "fadd ?pLat ?t"
  have a: "between (1431867948 / 10 ^ 50) (1432304231 / 10 ^ 50) ?a"
    by (rule fadd_between [OF pLat' t]) simp_all
  let ?y = "Math_sqrt ?a"
  have y: "between (3784003101 / 10 ^ 30) (3784579544 / 10 ^ 30) ?y"
    by (rule sqrt_between [OF a, where a = "(3784003102 / 10 ^ 30)" and b = "(3784579543 / 10 ^ 30)"]) (simp_all add: power2_eq_square)
  let ?z = "Math_asin ?y"
  have z: "between (37840031 / 10 ^ 28) (3784579546 / 10 ^ 30) ?z"
    by (rule asin_between [OF y, where t = "(3784579545 / 10 ^ 30)"]) (simp_all add: power3_eq_cube)
  let ?twoR = "fmul (Num 2) (rnd 3440.065)"
  have twoR: "between (6880129 / 10 ^ 3) (6880131 / 10 ^ 3) ?twoR"
    by (rule twoR_tight)
  let ?d = "fmul ?twoR ?z"
  have d: "between (2603442946 / 10 ^ 26) (2603840306 / 10 ^ 26) ?d"
    by (rule fmul_between [OF twoR z]) simp_all
  have "between (260344 / 10 ^ 22) (260385 / 10 ^ 22) ?d"
    by (rule between_mono [OF d]) simp_all
  then show ?thesis unfolding haversine_def hav_a_def toRad_def Let_def .
qed

lemma haversine_latitude_100:
  "between (565389 / 10 ^ 2) (206404 / 10 ^ 1) (haversine (Num 100) (Num 131) (Num (- 12)) (Num 131))"
proof -
  let ?qlat = "Num 100"
  have qlat: "between 100 100 ?qlat"
    by simp
  let ?qlon = "Num 131"
  have qlon: "between 131 131 ?qlon"
    by simp
  let ?dLat = "fsub (Num (- 12)) ?qlat"
  have dLat: "absBetween (1119999999 / 10 ^ 7) (1120000001 / 10 ^ 7) ?dLat"
    by (rule fsub_abs_le [OF qlat]) simp_all
  let ?rLatPi = "fmul ?dLat (Num Math_PI)"
  have rLatPi: "absBetween (3518583768 / 10 ^ 7) (3518583776 / 10 ^ 7) ?rLatPi"
    by (rule fmul_abs [OF dLat Math_PI_abs]) (simp_all add: Math_PI_def)
  let ?rLat = "fdiv ?rLatPi 180"
  have rLat: "absBetween (1954768759 / 10 ^ 9) (1954768765 / 10 ^ 9) ?rLat"
    by (rule fdiv_abs [OF rLatPi]) simp_all
  let ?hLat = "fdiv ?rLat 2"
  have hLat: "absBetween (9773843794 / 10 ^ 10) (9773843826 / 10 ^ 10) ?hLat"
    by (rule fdiv_abs [OF rLat]) simp_all
  let ?sLat = "Math_sin ?hLat"
  have sLat: "absBetween (8217717167 / 10 ^ 10) (9773843827 / 10 ^ 10) ?sLat"
    by (rule sin_abs [OF hLat]) (simp_all add: power2_eq_square)
  let ?pLat = "pow2 ?sLat"
  have pLat: "between (6753087543 / 10 ^ 10) (9552802316 / 10 ^ 10) ?pLat"
    by (rule pow2_between [OF sLat]) simp_all
  have qlat': "absBetween 100 100 ?qlat"
    by (rule between_abs [OF qlat]) simp
  let ?r1Pi = "fmul ?qlat (Num Math_PI)"
  have r1Pi: "absBetween (3141592653 / 10 ^ 7) (3141592654 / 10 ^ 7) ?r1Pi"
    by (rule fmul_abs [OF qlat' Math_PI_abs]) (simp_all add: Math_PI_def)
  let ?r1 = "fdiv ?r1Pi 180"
  have r1: "absBetween (1745329251 / 10 ^ 9) (1745329253 / 10 ^ 9) ?r1"
    by (rule fdiv_abs [OF r1Pi]) simp_all
  let ?c1 = "Math_cos ?r1"
  have c1: "absBetween 0 2 ?c1"
    by (rule cos_abs_any [OF r1])
  let ?lat2 = "Num (- 12)"
  have lat2: "absBetween 12 12 ?lat2"
    by simp
  let ?r2Pi = "fmul ?lat2 (Num Math_PI)"
  have r2Pi: "absBetween (3769911184 / 10 ^ 8) (3769911185 / 10 ^ 8) ?r2Pi"
    by (rule fmul_abs [OF lat2 Math_PI_abs]) (simp_all add: Math_PI_def)
  let ?r2 = "fdiv ?r2Pi 180"
  have r2: "absBetween (2094395102 / 10 ^ 10) (2094395103 / 10 ^ 10) ?r2"
    by (rule fdiv_abs [OF r2Pi]) simp_all
  let ?c2 = "Math_cos ?r2"
  have c2: "between (9780675457 / 10 ^ 10) (1000000000000001 / 10 ^ 15) ?c2"
    by (rule cos_between [OF r2]) (simp_all add: power2_eq_square)
  have c2': "absBetween (9780675457 / 10 ^ 10) (1000000000000001 / 10 ^ 15) ?c2"
    by (rule between_abs [OF c2]) simp
  let ?cc = "fmul ?c1 ?c2"
  have cc: "absBetween 0 (2000000001 / 10 ^ 9) ?cc"
    by (rule fmul_abs [OF c1 c2']) simp_all
  let ?pLon = "pow2 (Math_sin (fdiv (fdiv (fmul (fsub (Num 131) ?qlon) (Num Math_PI)) 180) 2))"
  have pLon: "?pLon = Num 0"
    by (simp add: toRad_def rnd_zero)
  let ?t = "fmul ?cc ?pLon"
  have t: "?t = Num 0"
    by (rule fmul_zero_right [OF cc pLon])
  have t': "between 0 0 ?t"
    unfolding t by simp
  let ?a = "fadd ?pLat ?t"
  have a: "between (6753087542 / 10 ^ 10) (9552802317 / 10 ^ 10) ?a"
    by (rule fadd_between [OF pLat t']) simp_all
  let ?y = "Math_sqrt ?a"
  have y: "between (8217717164 / 10 ^ 10) (9773843829 / 10 ^ 10) ?y"
    by (rule sqrt_between [OF a, where a = "(8217717165 / 10 ^ 10)" and b = "(9773843828 / 10 ^ 10)"]) (simp_all add: power2_eq_square)
  let ?z = "Math_asin ?y"
  have z: "between (8217717163 / 10 ^ 10) 3 ?z"
    by (rule asin_unit [OF y]) simp_all
  let ?twoR = "fmul (Num 2) (rnd 3440.065)"
  have twoR: "between (6880129 / 10 ^ 3) (6880131 / 10 ^ 3) ?twoR"
    by (rule twoR_tight)
  let ?d = "fmul ?twoR ?z"
  have d: "between (5653895416 / 10 ^ 6) (2064039301 / 10 ^ 5) ?d"
    by (rule fmul_between [OF twoR z]) simp_all
  have "between (565389 / 10 ^ 2) (206404 / 10 ^ 1) ?d"
    by (rule between_mono [OF d]) simp_all
  then show ?thesis unfolding haversine_def hav_a_def toRad_def Let_def .
qed


text \<open>
  The query \<open>(t, t)\<close> with \<open>t = 2^-600\<close> and the waypoint \<open>(0, 0)\<close>: the sines are
  below \<open>2^-596\<close> in magnitude, so their squares underflow to 0.
\<close>

lemma half_sin_underflow:
  "pow2 (Math_sin (fdiv (toRad (fsub (Num 0) (Num (1 / 2 ^ 600)))) 2)) = Num 0"
proof -
  let ?d = "fsub (Num 0) (Num (1 / 2 ^ 600))"
  have d: "absBetween 0 (1 / 2 ^ 599) ?d"
    unfolding fsub_Num by (rule rnd_abs [where lo = 0 and hi = "1 / 2 ^ 600"]) simp_all
  have "absBetween 0 (1 / 2 ^ 596) (fmul ?d (Num Math_PI))"
    by (rule fmul_abs [OF d Math_PI_abs]) (simp_all add: Math_PI_def)
  then have "absBetween 0 (1 / 2 ^ 596) (toRad ?d)"
    unfolding toRad_def by (rule fdiv_abs) simp_all
  then have "absBetween 0 (1 / 2 ^ 596) (fdiv (toRad ?d) 2)"
    by (rule fdiv_abs) simp_all
  then have "absBetween 0 (1 / 2 ^ 595) (Math_sin (fdiv (toRad ?d) 2))"
    by (rule sin_abs) simp_all
  then show ?thesis by (rule pow2_underflow) simp
qed

lemma haversine_underflow:
  "haversine (Num (1 / 2 ^ 600)) (Num (1 / 2 ^ 600)) (Num 0) (Num 0) = Num 0"
proof -
  have "\<bar>1 / 2 ^ 600 :: real\<bar> \<le> 360" by simp
  from toRad_finite [OF this] obtain x1 where x1: "toRad (Num (1 / 2 ^ 600)) = Num x1"
    by (rule absBetweenD)
  have "\<bar>0 :: real\<bar> \<le> 360" by simp
  from toRad_finite [OF this] obtain x2 where x2: "toRad (Num 0) = Num x2"
    by (rule absBetweenD)
  from half_sin_underflow half_sin_underflow x1 x2 show ?thesis
    by (rule haversine_zero_terms)
qed

section \<open>The claims on the matcher\<close>

text \<open>
  Claim C1, as amended. When the query is exactly the latitude and longitude of the
  waypoint at index \<open>k\<close> of a list of waypoints with latitudes in \<open>[-90, 90]\<close> and
  longitudes in \<open>[-180, 180]\<close>, the computed distance of the match is exactly 0, and the
  match is the earliest-indexed waypoint whose computed distance is 0, at an index
  \<open>i \<le> k\<close>. It is the waypoint at \<open>k\<close> itself when no earlier waypoint has the computed
  distance 0.
\<close>

theorem nearest_exact_coordinates:
  assumes valid: "\<forall>wp\<in>set wps. validLat (lat wp) \<and> validLon (lon wp)"
    and k: "k < length wps" "qlat = Num (lat (wps ! k))" "qlon = Num (lon (wps ! k))"
  shows "(\<exists>i\<le>k. nearest qlat qlon wps = (Some (wps ! i), Num 0) \<and>
            distTo qlat qlon (wps ! i) = Num 0 \<and>
            (\<forall>j<i. distTo qlat qlon (wps ! j) \<noteq> Num 0)) \<and>
         ((\<forall>j<k. distTo qlat qlon (wps ! j) \<noteq> Num 0) \<longrightarrow>
            nearest qlat qlon wps = (Some (wps ! k), Num 0))"
proof -
  let ?D = "distTo qlat qlon"
  have kin: "wps ! k \<in> set wps" using k(1) by simp
  then have "validLat (lat (wps ! k))" using valid by blast
  then have dk: "?D (wps ! k) = Num 0" unfolding k(2,3) by (rule distTo_same)
  from nearest_first_least [of qlat qlon wps] dk kin
  obtain pre w post m where split: "wps = pre @ w # post" and dw: "?D w = Num m"
    and res: "nearest qlat qlon wps = (Some w, Num m)"
    and pre: "\<forall>x\<in>set pre. \<forall>y. ?D x = Num y \<longrightarrow> m < y"
    and post: "\<forall>x\<in>set post. \<forall>y. ?D x = Num y \<longrightarrow> m \<le> y"
    by blast
  have "wps ! k \<in> set pre \<or> wps ! k = w \<or> wps ! k \<in> set post" using kin split by auto
  then have "m \<le> 0" using pre post dw dk by (auto simp: less_imp_le)
  moreover have "0 \<le> m" using distTo_range [of qlat qlon w] dw by simp
  ultimately have m0: "m = 0" by simp
  let ?i = "length pre"
  have wi: "wps ! ?i = w" using split by simp
  have before: "\<forall>j<?i. ?D (wps ! j) \<noteq> Num 0"
  proof (intro allI impI notI)
    fix j assume j: "j < ?i" and c: "?D (wps ! j) = Num 0"
    have "wps ! j \<in> set pre" using j split by (simp add: nth_append)
    then show False using pre m0 c by auto
  qed
  have ik: "?i \<le> k"
  proof (rule ccontr)
    assume "\<not> ?i \<le> k"
    then have "k < ?i" by simp
    with before dk show False by blast
  qed
  have first: "\<exists>i\<le>k. nearest qlat qlon wps = (Some (wps ! i), Num 0) \<and>
      ?D (wps ! i) = Num 0 \<and> (\<forall>j<i. ?D (wps ! j) \<noteq> Num 0)"
    using ik wi res m0 dw before by auto
  have self: "nearest qlat qlon wps = (Some (wps ! k), Num 0)"
    if none: "\<forall>j<k. ?D (wps ! j) \<noteq> Num 0"
  proof -
    have "\<not> ?i < k" using none dw m0 wi by auto
    with ik have "?i = k" by simp
    then show ?thesis using res wi m0 by simp
  qed
  from first self show ?thesis by blast
qed

theorem nearest_exact_coordinates_witness:
  "nearest (Num (-12.5)) (Num 131) [wpAt 0 (-12.5) 131 0, wpAt 1 (-12.5) 131 0]
     = (Some (wpAt 0 (-12.5) 131 0), Num 0)"
proof -
  let ?wps = "[wpAt 0 (-12.5) 131 0, wpAt 1 (-12.5) 131 0]"
  have v: "\<forall>wp\<in>set ?wps. validLat (lat wp) \<and> validLon (lon wp)"
    by (simp add: validLat_def validLon_def wpAt_def)
  have k: "1 < length ?wps" "Num (-12.5) = Num (lat (?wps ! 1))" "Num 131 = Num (lon (?wps ! 1))"
    by (simp_all add: wpAt_def)
  have "validLat (lat (wpAt 0 (-12.5) 131 0))" by (simp add: validLat_def wpAt_def)
  then have "distTo (Num (lat (wpAt 0 (-12.5) 131 0))) (Num (lon (wpAt 0 (-12.5) 131 0)))
      (wpAt 0 (-12.5) 131 0) = Num 0" by (rule distTo_same)
  then have z: "distTo (Num (-12.5)) (Num 131) (?wps ! 0) = Num 0" by (simp add: wpAt_def)
  from nearest_exact_coordinates [OF v k]
  obtain i where i: "i \<le> 1" "nearest (Num (-12.5)) (Num 131) ?wps = (Some (?wps ! i), Num 0)"
    "\<forall>j<i. distTo (Num (-12.5)) (Num 131) (?wps ! j) \<noteq> Num 0" by blast
  have "i = 0"
  proof (rule ccontr)
    assume "i \<noteq> 0"
    then have "0 < i" by simp
    with i(3) z show False by blast
  qed
  with i(2) show ?thesis by simp
qed

text \<open>
  Claim C1 as stated fails when a difference underflows. With \<open>t = 2^-600\<close>, the
  waypoints \<open>(0, 0)\<close> and \<open>(t, t)\<close> and the query \<open>(t, t)\<close>, the computed distance to
  \<open>(0, 0)\<close> is 0 as well, and the scan keeps the first waypoint, which does not have the
  coordinates of the query.
\<close>

theorem exact_match_lost_to_underflow:
  "nearest (Num (1 / 2 ^ 600)) (Num (1 / 2 ^ 600)) [wpAt 0 0 0 0, wpAt 1 (1 / 2 ^ 600) (1 / 2 ^ 600) 0]
     = (Some (wpAt 0 0 0 0), Num 0) \<and>
   lat (wpAt 0 0 0 0) \<noteq> 1 / 2 ^ 600 \<and>
   validLat (1 / 2 ^ 600) \<and> validLon (1 / 2 ^ 600)"
proof -
  have a: "distTo (Num (1 / 2 ^ 600)) (Num (1 / 2 ^ 600)) (wpAt 0 0 0 0) = Num 0"
    using haversine_underflow by (simp add: distTo_def wpAt_def)
  have "validLat (1 / 2 ^ 600)" by (simp add: validLat_def)
  then have "haversine (Num (1 / 2 ^ 600)) (Num (1 / 2 ^ 600)) (Num (1 / 2 ^ 600)) (Num (1 / 2 ^ 600)) = Num 0"
    by (rule haversine_same)
  then have b: "distTo (Num (1 / 2 ^ 600)) (Num (1 / 2 ^ 600)) (wpAt 1 (1 / 2 ^ 600) (1 / 2 ^ 600) 0) = Num 0"
    by (simp add: distTo_def wpAt_def)
  from a b have "nearest (Num (1 / 2 ^ 600)) (Num (1 / 2 ^ 600))
      [wpAt 0 0 0 0, wpAt 1 (1 / 2 ^ 600) (1 / 2 ^ 600) 0] = (Some (wpAt 0 0 0 0), Num 0)"
    by (rule nearest_pair_tie)
  then show ?thesis by (simp add: wpAt_def validLat_def validLon_def)
qed

text \<open>
  Claim C2, as amended. The scan compares with \<^verbatim>\<open>d < bestDist\<close> and no tolerance: the
  waypoint it returns has the least computed distance of the list, and among the
  waypoints whose computed distance is exactly that least value it is the one of
  smallest index. Waypoints whose distance is NaN are passed over.
\<close>

theorem nearest_tie_break:
  assumes "nearest qlat qlon wps = (Some w, d)"
  shows "\<exists>i<length wps. \<exists>m. wps ! i = w \<and> d = Num m \<and> distTo qlat qlon w = Num m \<and>
           (\<forall>j<length wps. \<forall>y. distTo qlat qlon (wps ! j) = Num y \<longrightarrow> m \<le> y) \<and>
           (\<forall>j<length wps. distTo qlat qlon (wps ! j) = Num m \<longrightarrow> i \<le> j)"
proof -
  let ?D = "distTo qlat qlon"
  from nearest_first_least [of qlat qlon wps] assms
  obtain pre post m where split: "wps = pre @ w # post" and dw: "?D w = Num m"
    and res: "d = Num m"
    and pre: "\<forall>x\<in>set pre. \<forall>y. ?D x = Num y \<longrightarrow> m < y"
    and post: "\<forall>x\<in>set post. \<forall>y. ?D x = Num y \<longrightarrow> m \<le> y"
    by auto
  let ?i = "length pre"
  have i: "?i < length wps" and wi: "wps ! ?i = w" using split by simp_all
  have all: "\<forall>j<length wps. \<forall>y. ?D (wps ! j) = Num y \<longrightarrow> m \<le> y"
  proof (intro allI impI)
    fix j y assume "j < length wps" and y: "?D (wps ! j) = Num y"
    then have "wps ! j \<in> set wps" by simp
    then have "wps ! j \<in> set pre \<or> wps ! j = w \<or> wps ! j \<in> set post"
      using split by auto
    then show "m \<le> y" using pre post dw y by (auto simp: less_imp_le)
  qed
  have first: "\<forall>j<length wps. ?D (wps ! j) = Num m \<longrightarrow> ?i \<le> j"
  proof (intro allI impI)
    fix j assume "j < length wps" and eq: "?D (wps ! j) = Num m"
    show "?i \<le> j"
    proof (rule ccontr)
      assume "\<not> ?i \<le> j"
      then have j: "j < ?i" by simp
      then have "wps ! j \<in> set pre" using split by (simp add: nth_append)
      with pre eq show False by auto
    qed
  qed
  show ?thesis using i wi res dw all first by blast
qed

theorem nearest_tie_break_witness:
  "\<exists>i<length [wpAt 0 (-12) 131 0, wpAt 1 (-12) 131 0]. \<exists>m.
      [wpAt 0 (-12) 131 0, wpAt 1 (-12) 131 0] ! i = wpAt 0 (-12) 131 0 \<and> Num 0 = Num m \<and>
      distTo (Num (-12)) (Num 131) (wpAt 0 (-12) 131 0) = Num m \<and>
      (\<forall>j<length [wpAt 0 (-12) 131 0, wpAt 1 (-12) 131 0]. \<forall>y.
          distTo (Num (-12)) (Num 131) ([wpAt 0 (-12) 131 0, wpAt 1 (-12) 131 0] ! j) = Num y
            \<longrightarrow> m \<le> y) \<and>
      (\<forall>j<length [wpAt 0 (-12) 131 0, wpAt 1 (-12) 131 0].
          distTo (Num (-12)) (Num 131) ([wpAt 0 (-12) 131 0, wpAt 1 (-12) 131 0] ! j) = Num m
            \<longrightarrow> i \<le> j)"
proof -
  have v: "validLat (-12)" by (simp add: validLat_def)
  have a: "distTo (Num (-12)) (Num 131) (wpAt 0 (-12) 131 0) = Num 0"
    using haversine_same [OF v, of 131] by (simp add: distTo_def wpAt_def)
  have b: "distTo (Num (-12)) (Num 131) (wpAt 1 (-12) 131 0) = Num 0"
    using haversine_same [OF v, of 131] by (simp add: distTo_def wpAt_def)
  have "nearest (Num (-12)) (Num 131) [wpAt 0 (-12) 131 0, wpAt 1 (-12) 131 0]
      = (Some (wpAt 0 (-12) 131 0), Num 0)"
    using a b by (rule nearest_pair_tie)
  then show ?thesis by (rule nearest_tie_break)
qed

text \<open>
  Claim C2 as stated fails: the query \<open>(1, 2^-61)\<close> is at computed distances below
  \<open>2^-52\<close> from the waypoints \<open>(1, -2^-61)\<close> and \<open>(1, 0)\<close>, so the two are equidistant
  within floating-point epsilon, and the scan returns the second, of the larger index.
\<close>

theorem later_waypoint_wins_within_epsilon:
  "between 0 (1 / 2 ^ 52) (distTo (Num 1) (Num (1 / 2 ^ 61)) (wpAt 0 1 (- (1 / 2 ^ 61)) 0)) \<and>
   between 0 (1 / 2 ^ 52) (distTo (Num 1) (Num (1 / 2 ^ 61)) (wpAt 1 1 0 0)) \<and>
   nearest (Num 1) (Num (1 / 2 ^ 61)) [wpAt 0 1 (- (1 / 2 ^ 61)) 0, wpAt 1 1 0 0]
     = (Some (wpAt 1 1 0 0), distTo (Num 1) (Num (1 / 2 ^ 61)) (wpAt 1 1 0 0))"
proof -
  let ?A = "wpAt 0 1 (- (1 / 2 ^ 61)) 0" and ?B = "wpAt 1 1 0 0"
  let ?D = "distTo (Num 1) (Num (1 / 2 ^ 61))"
  have a: "between (520688 / 10 ^ 22) (520769 / 10 ^ 22) (?D ?A)"
    using haversine_tie_first by (simp add: distTo_def wpAt_def)
  have b: "between (260344 / 10 ^ 22) (260385 / 10 ^ 22) (?D ?B)"
    using haversine_tie_second by (simp add: distTo_def wpAt_def)
  have 1: "between 0 (1 / 2 ^ 52) (?D ?A)" by (rule between_mono [OF a]) simp_all
  have 2: "between 0 (1 / 2 ^ 52) (?D ?B)" by (rule between_mono [OF b]) simp_all
  have 3: "nearest (Num 1) (Num (1 / 2 ^ 61)) [?A, ?B] = (Some ?B, ?D ?B)"
    by (rule nearest_pair_second [OF a b]) simp
  from 1 2 3 show ?thesis by blast
qed




text \<open>
  Claim C8. For two lists with the same waypoints in any order, the scan finds the same
  least distance, and the waypoints it returns are at the same distance from the query.
\<close>

theorem nearest_reorder:
  assumes "mset wps = mset wps'"
  shows "snd (nearest qlat qlon wps) = snd (nearest qlat qlon wps') \<and>
         (\<forall>w w'. fst (nearest qlat qlon wps) = Some w \<and> fst (nearest qlat qlon wps') = Some w'
            \<longrightarrow> distTo qlat qlon w = distTo qlat qlon w')"
proof -
  let ?D = "distTo qlat qlon"
  have sets: "set wps = set wps'" using assms by (rule mset_eq_setD)
  from nearest_least [of qlat qlon wps] show ?thesis
  proof (elim disjE bexE exE conjE)
    assume n: "nearest qlat qlon wps = (None, Infinity)"
      and none: "\<forall>x\<in>set wps. \<forall>y. ?D x \<noteq> Num y"
    from nearest_least [of qlat qlon wps'] none sets
    have "nearest qlat qlon wps' = (None, Infinity)" by blast
    with n show ?thesis by simp
  next
    fix w m
    assume w: "w \<in> set wps" "?D w = Num m" "nearest qlat qlon wps = (Some w, Num m)"
      "\<forall>x\<in>set wps. \<forall>y. ?D x = Num y \<longrightarrow> m \<le> y"
    from nearest_least [of qlat qlon wps'] w(1,2) sets
    obtain w' m' where w': "w' \<in> set wps'" "?D w' = Num m'"
      "nearest qlat qlon wps' = (Some w', Num m')"
      "\<forall>x\<in>set wps'. \<forall>y. ?D x = Num y \<longrightarrow> m' \<le> y" by blast
    have "m \<le> m'" using w(4) w'(1,2) sets by blast
    moreover have "m' \<le> m" using w'(4) w(1,2) sets by blast
    ultimately have "m = m'" by simp
    then show ?thesis using w(2,3) w'(2,3) by simp
  qed
qed

theorem nearest_reorder_witness:
  "mset [wpAt 0 0 0 0, wpAt 1 1 1 0] = mset [wpAt 1 1 1 0, wpAt 0 0 0 0] \<and>
   snd (nearest (rnd (1/10)) (rnd (1/10)) [wpAt 0 0 0 0, wpAt 1 1 1 0])
     = snd (nearest (rnd (1/10)) (rnd (1/10)) [wpAt 1 1 1 0, wpAt 0 0 0 0])"
proof -
  have m: "mset [wpAt 0 0 0 0, wpAt 1 1 1 0] = mset [wpAt 1 1 1 0, wpAt 0 0 0 0]"
    by (simp add: add_mset_commute)
  from nearest_reorder [OF m, of "rnd (1/10)" "rnd (1/10)"] m show ?thesis by simp
qed

lemma nearest_example:
  "nearest (rnd (1/10)) (rnd (1/10)) [wpAt 0 0 0 0, wpAt 1 1 1 0]
     = (Some (wpAt 0 0 0 0), distTo (rnd (1/10)) (rnd (1/10)) (wpAt 0 0 0 0))"
  "between (849099 / 10 ^ 5) (849101 / 10 ^ 5) (distTo (rnd (1/10)) (rnd (1/10)) (wpAt 0 0 0 0))"
proof -
  let ?D = "distTo (rnd (1/10)) (rnd (1/10))"
  show a: "between (849099 / 10 ^ 5) (849101 / 10 ^ 5) (?D (wpAt 0 0 0 0))"
    using haversine_example_first by (simp add: distTo_def wpAt_def)
  have b: "between (764152 / 10 ^ 4) (76421 / 10 ^ 3) (?D (wpAt 1 1 1 0))"
    using haversine_example_second by (simp add: distTo_def wpAt_def)
  show "nearest (rnd (1/10)) (rnd (1/10)) [wpAt 0 0 0 0, wpAt 1 1 1 0]
     = (Some (wpAt 0 0 0 0), ?D (wpAt 0 0 0 0))"
    by (rule nearest_pair_first [OF a b]) simp
qed

text \<open>
  Claim C9, as amended. For the dataset \<open>[(0, 0), (1, 1)]\<close> and the query \<open>(0.1, 0.1)\<close>
  (the number \<open>0.1\<close> is \<open>1/10\<close> rounded) the scan returns the first waypoint, and the
  distance is between 8.49 and 8.50 nautical miles.
\<close>

theorem nearest_example_distance:
  "\<exists>d. nearest (rnd (1/10)) (rnd (1/10)) [wpAt 0 0 0 0, wpAt 1 1 1 0]
          = (Some (wpAt 0 0 0 0), Num d) \<and> 8.49 < d \<and> d < 8.50"
proof -
  from nearest_example(2) obtain d
    where d: "distTo (rnd (1/10)) (rnd (1/10)) (wpAt 0 0 0 0) = Num d"
      "(849099 / 10 ^ 5) \<le> d" "d \<le> (849101 / 10 ^ 5)" by (rule betweenD)
  from d(2,3) have "8.49 < d" "d < 8.50" by simp_all
  with nearest_example(1) d(1) show ?thesis by simp
qed

theorem nearest_example_distance_witness:
  "fst (nearest (rnd (1/10)) (rnd (1/10)) [wpAt 0 0 0 0, wpAt 1 1 1 0]) = Some (wpAt 0 0 0 0)"
  using nearest_example_distance by auto

text \<open>
  Claim C9 as stated gives about 9.95 nautical miles; the computed distance is below 8.5,
  more than 1.45 away.
\<close>

theorem nearest_example_not_9_95:
  "\<exists>d. snd (nearest (rnd (1/10)) (rnd (1/10)) [wpAt 0 0 0 0, wpAt 1 1 1 0]) = Num d \<and>
        d < 9.95 - 1.45"
proof -
  from nearest_example(2) obtain d
    where d: "distTo (rnd (1/10)) (rnd (1/10)) (wpAt 0 0 0 0) = Num d"
      "(849099 / 10 ^ 5) \<le> d" "d \<le> (849101 / 10 ^ 5)" by (rule betweenD)
  from d(3) have "d < 9.95 - 1.45" by simp
  with nearest_example(1) d(1) show ?thesis by simp
qed


section \<open>The upload flow\<close>

lemma nearest_single:
  assumes "distTo qlat qlon w = Num d"
  shows "nearest qlat qlon [w] = (Some w, Num d)"
  using assms by (simp add: nearest_def distTo_def)

lemma nearest_nonfinite:
  assumes "qlat \<in> {NaN, Infinity, NegInfinity} \<or> qlon \<in> {NaN, Infinity, NegInfinity}"
  shows "nearest qlat qlon wps = (None, Infinity)"
proof -
  have "distTo qlat qlon w = NaN" for w
    unfolding distTo_def using assms by (rule haversine_nonfinite)
  with nearest_least [of qlat qlon wps] show ?thesis by auto
qed

text \<open>
  Claim C4, as amended. \<^verbatim>\<open>handleFile\<close> checks no range and signals no invalid
  coordinate; its only test is the truthiness of the two numbers. When both are truthy
  (any number other than 0, in range or not, and the infinities) it records the
  location, stores the result of the scan as the suggestion and moves to the confirm
  step, where the dialog offers the suggestion before the selected waypoint, or nothing
  when the scan found no match. When one of them is 0 or NaN it does what it does for a
  photo without location. For an infinite coordinate every computed distance is NaN, so
  the scan finds no match.
\<close>

theorem handleFile_no_range_check:
  "(truthy glat \<and> truthy glon \<longrightarrow>
      handleFile file url (Gps glat glon) WAYPOINTS s
        = s\<lparr>preview := Some url, pendingFile := Some file,
            exifLocation := Some (glat, glon),
            suggestedWp := fst (nearest glat glon WAYPOINTS), step := ConfirmGps\<rparr> \<and>
      saveTargets (handleFile file url (Gps glat glon) WAYPOINTS s) selected
        = (case fst (nearest glat glon WAYPOINTS) of
             None \<Rightarrow> []
           | Some w \<Rightarrow> if url = [] then [] else [w, selected])) \<and>
   (\<not> (truthy glat \<and> truthy glon) \<longrightarrow>
      handleFile file url (Gps glat glon) WAYPOINTS s
        = handleFile file url GpsUndefined WAYPOINTS s) \<and>
   (glat \<in> {Infinity, NegInfinity} \<or> glon \<in> {Infinity, NegInfinity} \<longrightarrow>
      nearest glat glon WAYPOINTS = (None, Infinity))"
proof (intro conjI impI)
  assume t: "truthy glat \<and> truthy glon"
  then show eq: "handleFile file url (Gps glat glon) WAYPOINTS s
        = s\<lparr>preview := Some url, pendingFile := Some file,
            exifLocation := Some (glat, glon),
            suggestedWp := fst (nearest glat glon WAYPOINTS), step := ConfirmGps\<rparr>"
    by (simp add: handleFile_def)
  show "saveTargets (handleFile file url (Gps glat glon) WAYPOINTS s) selected
        = (case fst (nearest glat glon WAYPOINTS) of
             None \<Rightarrow> []
           | Some w \<Rightarrow> if url = [] then [] else [w, selected])"
    unfolding eq by (simp add: saveTargets_def split: option.splits)
next
  assume "\<not> (truthy glat \<and> truthy glon)"
  then show "handleFile file url (Gps glat glon) WAYPOINTS s
        = handleFile file url GpsUndefined WAYPOINTS s"
    by (auto simp: handleFile_def Let_def)
next
  assume "glat \<in> {Infinity, NegInfinity} \<or> glon \<in> {Infinity, NegInfinity}"
  then have "glat \<in> {NaN, Infinity, NegInfinity} \<or> glon \<in> {NaN, Infinity, NegInfinity}"
    by auto
  then show "nearest glat glon WAYPOINTS = (None, Infinity)" by (rule nearest_nonfinite)
qed

theorem handleFile_no_range_check_witness:
  "step (handleFile ''photo.jpg'' ''blob:1'' (Gps Infinity (Num 131)) exampleTrack initialState)
     = ConfirmGps \<and>
   suggestedWp (handleFile ''photo.jpg'' ''blob:1'' (Gps Infinity (Num 131)) exampleTrack initialState)
     = None \<and>
   saveTargets (handleFile ''photo.jpg'' ''blob:1'' (Gps Infinity (Num 131)) exampleTrack initialState)
     (wpAt 7 (-11) 132 0) = [] \<and>
   handleFile ''photo.jpg'' ''blob:1'' (Gps NaN (Num 131)) exampleTrack initialState
     = handleFile ''photo.jpg'' ''blob:1'' GpsUndefined exampleTrack initialState"
proof -
  note t = handleFile_no_range_check [of Infinity "Num 131" "''photo.jpg''" "''blob:1''"
      exampleTrack initialState "wpAt 7 (-11) 132 0"]
  have tr: "truthy Infinity \<and> truthy (Num 131)" by simp
  have inf: "Infinity \<in> {Infinity, NegInfinity} \<or> Num 131 \<in> {Infinity, NegInfinity}" by simp
  from t inf have n: "nearest Infinity (Num 131) exampleTrack = (None, Infinity)" by blast
  from t tr have eq: "handleFile ''photo.jpg'' ''blob:1'' (Gps Infinity (Num 131)) exampleTrack initialState
      = initialState\<lparr>preview := Some ''blob:1'', pendingFile := Some ''photo.jpg'',
          exifLocation := Some (Infinity, Num 131),
          suggestedWp := fst (nearest Infinity (Num 131) exampleTrack), step := ConfirmGps\<rparr>"
    by blast
  from t tr have sv: "saveTargets (handleFile ''photo.jpg'' ''blob:1'' (Gps Infinity (Num 131))
      exampleTrack initialState) (wpAt 7 (-11) 132 0)
      = (case fst (nearest Infinity (Num 131) exampleTrack) of
           None \<Rightarrow> []
         | Some w \<Rightarrow> if ''blob:1'' = [] then [] else [w, wpAt 7 (-11) 132 0])"
    by blast
  have 1: "step (handleFile ''photo.jpg'' ''blob:1'' (Gps Infinity (Num 131)) exampleTrack initialState)
      = ConfirmGps" unfolding eq by simp
  have 2: "suggestedWp (handleFile ''photo.jpg'' ''blob:1'' (Gps Infinity (Num 131)) exampleTrack
      initialState) = None" unfolding eq by (simp add: n)
  have 3: "saveTargets (handleFile ''photo.jpg'' ''blob:1'' (Gps Infinity (Num 131)) exampleTrack
      initialState) (wpAt 7 (-11) 132 0) = []" unfolding sv by (simp add: n)
  have fl: "\<not> (truthy NaN \<and> truthy (Num 131))" by simp
  from handleFile_no_range_check [of NaN "Num 131" "''photo.jpg''" "''blob:1''"
      exampleTrack initialState] fl
  have 4: "handleFile ''photo.jpg'' ''blob:1'' (Gps NaN (Num 131)) exampleTrack initialState
      = handleFile ''photo.jpg'' ''blob:1'' GpsUndefined exampleTrack initialState" by blast
  from 1 2 3 4 show ?thesis by blast
qed

text \<open>
  Claim C4 as stated fails for the latitude 100: the scan matches the waypoint
  \<open>(-12, 131)\<close>, at a computed distance between 5653 and 20641 nautical miles, the flow
  enters the confirm step and offers the match.
\<close>

theorem out_of_range_latitude_matched:
  "\<not> validLat 100 \<and>
   handleFile ''photo.jpg'' ''blob:1'' (Gps (Num 100) (Num 131)) [wpAt 0 (-12) 131 0] initialState
     = \<lparr>preview = Some ''blob:1'', exifLocation = Some (Num 100, Num 131),
        suggestedWp = Some (wpAt 0 (-12) 131 0),
        pendingFile = Some ''photo.jpg'', step = ConfirmGps\<rparr> \<and>
   saveTargets (handleFile ''photo.jpg'' ''blob:1'' (Gps (Num 100) (Num 131)) [wpAt 0 (-12) 131 0]
       initialState) (wpAt 7 (-11) 132 0) = [wpAt 0 (-12) 131 0, wpAt 7 (-11) 132 0] \<and>
   between 5653 20641 (distTo (Num 100) (Num 131) (wpAt 0 (-12) 131 0))"
proof -
  have "between (565389 / 10 ^ 2) (206404 / 10 ^ 1) (distTo (Num 100) (Num 131) (wpAt 0 (-12) 131 0))"
    using haversine_latitude_100 by (simp add: distTo_def wpAt_def)
  then have b: "between 5653 20641 (distTo (Num 100) (Num 131) (wpAt 0 (-12) 131 0))"
    by (rule between_mono) simp_all
  then obtain d where "distTo (Num 100) (Num 131) (wpAt 0 (-12) 131 0) = Num d"
    by (rule betweenD)
  then have "nearest (Num 100) (Num 131) [wpAt 0 (-12) 131 0] = (Some (wpAt 0 (-12) 131 0), Num d)"
    by (rule nearest_single)
  then have "\<not> validLat 100 \<and>
   handleFile ''photo.jpg'' ''blob:1'' (Gps (Num 100) (Num 131)) [wpAt 0 (-12) 131 0] initialState
     = \<lparr>preview = Some ''blob:1'', exifLocation = Some (Num 100, Num 131),
        suggestedWp = Some (wpAt 0 (-12) 131 0),
        pendingFile = Some ''photo.jpg'', step = ConfirmGps\<rparr> \<and>
   saveTargets (handleFile ''photo.jpg'' ''blob:1'' (Gps (Num 100) (Num 131)) [wpAt 0 (-12) 131 0]
       initialState) (wpAt 7 (-11) 132 0) = [wpAt 0 (-12) 131 0, wpAt 7 (-11) 132 0]"
    by (simp add: handleFile_def initialState_def saveTargets_def validLat_def)
  with b show ?thesis by blast
qed

text \<open>
  Claim C10. When the extracted latitude is 0 or the extracted longitude is 0,
  \<^verbatim>\<open>handleFile\<close> does what it does for a file with no location: from the initial state
  it stays in the upload step with no suggestion and no recorded location, and the only
  waypoint the dialog offers to save to is the selected one.
\<close>

theorem handleFile_zero_coordinate:
  assumes "glat = Num 0 \<or> glon = Num 0"
  shows "handleFile file url (Gps glat glon) WAYPOINTS s
           = handleFile file url GpsUndefined WAYPOINTS s \<and>
         step (handleFile file url (Gps glat glon) WAYPOINTS initialState) = Upload \<and>
         suggestedWp (handleFile file url (Gps glat glon) WAYPOINTS initialState) = None \<and>
         exifLocation (handleFile file url (Gps glat glon) WAYPOINTS initialState) = None \<and>
         saveTargets (handleFile file url (Gps glat glon) WAYPOINTS initialState) selected
           = (if url = [] then [] else [selected])"
  using assms by (auto simp: handleFile_def initialState_def saveTargets_def)

theorem handleFile_zero_coordinate_witness:
  "step (handleFile ''photo.jpg'' ''blob:1'' (Gps (Num 0) (Num 131)) exampleTrack initialState) = Upload \<and>
   suggestedWp (handleFile ''photo.jpg'' ''blob:1'' (Gps (Num 0) (Num 131)) exampleTrack initialState) = None \<and>
   saveTargets (handleFile ''photo.jpg'' ''blob:1'' (Gps (Num 0) (Num 131)) exampleTrack initialState)
     (wpAt 3 (-11.90) 132.30 1770937200000) = [wpAt 3 (-11.90) 132.30 1770937200000]"
proof -
  let ?s = "handleFile ''photo.jpg'' ''blob:1'' (Gps (Num 0) (Num 131)) exampleTrack initialState"
  have h: "Num 0 = Num 0 \<or> Num 131 = Num 0" by simp
  note t = handleFile_zero_coordinate [OF h, of "''photo.jpg''" "''blob:1''" exampleTrack
      initialState "wpAt 3 (-11.90) 132.30 1770937200000"]
  from t have a: "step ?s = Upload" and b: "suggestedWp ?s = None" by blast+
  from t have "saveTargets ?s (wpAt 3 (-11.90) 132.30 1770937200000)
      = (if ''blob:1'' = [] then [] else [wpAt 3 (-11.90) 132.30 1770937200000])" by blast
  then have c: "saveTargets ?s (wpAt 3 (-11.90) 132.30 1770937200000)
      = [wpAt 3 (-11.90) 132.30 1770937200000]" by simp
  from a b c show ?thesis by blast
qed


section \<open>The night-watch segments\<close>

lemma runs_all: "(\<forall>x\<in>set pre. P x) \<Longrightarrow> runs P pre = (if pre = [] then [] else [pre])"
  by (cases pre) (simp_all add: takeWhile_eq_all_conv[THEN iffD2] dropWhile_eq_Nil_conv[THEN iffD2])

lemma runs_all_then_stop:
  assumes "\<forall>x\<in>set pre. P x" and "\<not> P w"
  shows "runs P (pre @ w # xs) = (if pre = [] then [] else [pre]) @ runs P xs"
proof (cases pre)
  case Nil
  with assms show ?thesis by simp
next
  case (Cons p ps)
  with assms have ps: "\<forall>x\<in>set ps. P x" and p: "P p" by simp_all
  have "takeWhile P (ps @ w # xs) = ps" using ps assms(2) by (simp add: takeWhile_append2)
  moreover have "dropWhile P (ps @ w # xs) = w # xs" using ps assms(2) by (simp add: dropWhile_append2)
  ultimately show ?thesis using Cons p assms(2) by simp
qed



lemma filter_takeWhile_same: "filter P (takeWhile P xs) = takeWhile P xs"
  by (induction xs) simp_all

lemma concat_runs: "concat (runs P xs) = filter P xs"
proof (induction P xs rule: runs.induct)
  case (1 P)
  show ?case by simp
next
  case (2 P x xs)
  show ?case
  proof (cases "P x")
    case True
    have "filter P (takeWhile P xs @ dropWhile P xs) = takeWhile P xs @ filter P (dropWhile P xs)"
      by (simp only: filter_append filter_takeWhile_same)
    then have f: "filter P xs = takeWhile P xs @ filter P (dropWhile P xs)"
      by (simp only: takeWhile_dropWhile_id)
    have "concat (runs P (x # xs)) = x # takeWhile P xs @ concat (runs P (dropWhile P xs))"
      using True by simp
    also have "\<dots> = x # takeWhile P xs @ filter P (dropWhile P xs)"
      using 2(1) [OF True] by simp
    also have "\<dots> = x # filter P xs" using f by (simp only:)
    also have "\<dots> = filter P (x # xs)" using True by simp
    finally show ?thesis .
  next
    case False
    with 2 show ?thesis by simp
  qed
qed

lemma runs_member:
  "r \<in> set (runs P xs) \<Longrightarrow>
     r \<noteq> [] \<and> (\<forall>x\<in>set r. P x) \<and>
     (\<exists>ps ss. xs = ps @ r @ ss \<and> (ps = [] \<or> \<not> P (last ps)) \<and> (ss = [] \<or> \<not> P (hd ss)))"
proof (induction P xs rule: runs.induct)
  case (1 P)
  then show ?case by simp
next
  case (2 P x xs)
  show ?case
  proof (cases "P x")
    case True
    with 2(3) have "r = x # takeWhile P xs \<or> r \<in> set (runs P (dropWhile P xs))" by simp
    then show ?thesis
    proof
      assume r: "r = x # takeWhile P xs"
      have "x # xs = [] @ r @ dropWhile P xs" using r by simp
      moreover have "dropWhile P xs = [] \<or> \<not> P (hd (dropWhile P xs))"
        using hd_dropWhile [of P xs] by blast
      moreover have "\<forall>y\<in>set r. P y" using r True by (auto dest: set_takeWhileD)
      ultimately show ?thesis using r by blast
    next
      assume "r \<in> set (runs P (dropWhile P xs))"
      from 2(1) [OF True this] obtain ps ss where
        a: "r \<noteq> []" "\<forall>x\<in>set r. P x" "dropWhile P xs = ps @ r @ ss"
           "ps = [] \<or> \<not> P (last ps)" "ss = [] \<or> \<not> P (hd ss)" by blast
      have dne: "dropWhile P xs \<noteq> []" using a(1,3) by simp
      then have nothd: "\<not> P (hd (dropWhile P xs))" using hd_dropWhile by blast
      have psne: "ps \<noteq> []"
      proof
        assume "ps = []"
        then have "hd (dropWhile P xs) = hd r" using a(1,3) by simp
        then show False using nothd a(1,2) by simp
      qed
      have "x # xs = (x # takeWhile P xs @ ps) @ r @ ss"
        using a(3) by (metis append.assoc append_Cons takeWhile_dropWhile_id)
      moreover have "\<not> P (last (x # takeWhile P xs @ ps))" using psne a(4) by simp
      ultimately show ?thesis using a(1,2,5) by blast
    qed
  next
    case False
    with 2(3) have "r \<in> set (runs P xs)" by simp
    from 2(2) [OF False this] obtain ps ss where
        a: "r \<noteq> []" "\<forall>x\<in>set r. P x" "xs = ps @ r @ ss"
           "ps = [] \<or> \<not> P (last ps)" "ss = [] \<or> \<not> P (hd ss)" by blast
    have "x # xs = (x # ps) @ r @ ss" using a(3) by simp
    moreover have "\<not> P (last (x # ps))" using a(4) False by auto
    ultimately show ?thesis using a(1,2,5) by blast
  qed
qed




lemma nightLoop_runs:
  assumes "\<forall>w\<in>set pre. isNightUTC (time w)"
  shows "(case nightLoop wps (map latlon pre) layer of
            (nightSegment, nightLayer) \<Rightarrow>
              if length nightSegment > 1 then nightLayer @ [nightSegment] else nightLayer)
         = layer @ map (map latlon) (filter (\<lambda>r. 2 \<le> length r) (nightRuns (pre @ wps)))"
  using assms
proof (induction wps arbitrary: pre layer)
  case Nil
  then show ?case by (auto simp: nightRuns_def runs_all)
next
  case (Cons w wps)
  show ?case
  proof (cases "isNightUTC (time w)")
    case True
    have "\<forall>x\<in>set (pre @ [w]). isNightUTC (time x)" using Cons.prems True by simp
    from Cons.IH [OF this, of layer] True show ?thesis by (simp add: latlon_def)
  next
    case False
    have e: "\<forall>x\<in>set ([]::waypoint list). isNightUTC (time x)" by simp
    have r: "nightRuns (pre @ w # wps) = (if pre = [] then [] else [pre]) @ nightRuns wps"
      unfolding nightRuns_def using Cons.prems False by (rule runs_all_then_stop)
    from Cons.IH [OF e, of "if length (map latlon pre) > 1 then layer @ [map latlon pre] else layer"]
    show ?thesis using False r by auto
  qed
qed

lemma nightWatchSegments_runs:
  "nightWatchSegments wps = map (map latlon) (filter (\<lambda>r. 2 \<le> length r) (nightRuns wps))"
  using nightLoop_runs [of "[]" wps "[]"] by (simp add: nightWatchSegments_def)

lemma sorted_wrt_concat_filter:
  "sorted_wrt R (concat xss) \<Longrightarrow> sorted_wrt R (concat (filter Q xss))"
  by (induction xss) (auto simp: sorted_wrt_append)

lemma sorted_wrt_hd_concat:
  "sorted_wrt R (concat xss) \<Longrightarrow> (\<forall>xs\<in>set xss. xs \<noteq> []) \<Longrightarrow> sorted_wrt (\<lambda>a b. R (hd a) (hd b)) xss"
proof (induction xss)
  case Nil
  then show ?case by simp
next
  case (Cons xs xss)
  have "\<forall>ys\<in>set xss. R (hd xs) (hd ys)"
  proof
    fix ys assume ys: "ys \<in> set xss"
    then have "ys \<noteq> []" using Cons.prems(2) by simp
    then have "hd ys \<in> set ys" by simp
    then have "hd ys \<in> set (concat xss)" using ys by auto
    moreover have "hd xs \<in> set xs" using Cons.prems(2) by simp
    moreover have "\<forall>a\<in>set xs. \<forall>b\<in>set (concat xss). R a b"
      using Cons.prems(1) by (simp add: sorted_wrt_append)
    ultimately show "R (hd xs) (hd ys)" by blast
  qed
  moreover have "sorted_wrt (\<lambda>a b. R (hd a) (hd b)) xss"
    using Cons by (simp add: sorted_wrt_append)
  ultimately show ?case by simp
qed

text \<open>
  Claim C5. A time is classified as night exactly when its UTC hour is at least 8 and
  below 21. For four waypoints whose UTC hours are 0, 19, 20 and 23, the first and the
  last are day, the middle two are night, and the night-watch layer gets exactly one
  segment, made of the positions of the two night waypoints.
\<close>

theorem isNightUTC_hours:
  "(isNightUTC t \<longleftrightarrow> 8 \<le> (t div 3600000) mod 24 \<and> (t div 3600000) mod 24 < 21) \<and>
   (getUTCHours (time w0) = 0 \<and> getUTCHours (time w1) = 19 \<and>
    getUTCHours (time w2) = 20 \<and> getUTCHours (time w3) = 23 \<longrightarrow>
      \<not> isNightUTC (time w0) \<and> isNightUTC (time w1) \<and> isNightUTC (time w2) \<and>
      \<not> isNightUTC (time w3) \<and>
      nightWatchSegments [w0, w1, w2, w3] = [[(lat w1, lon w1), (lat w2, lon w2)]])"
  by (simp add: isNightUTC_def getUTCHours_def Let_def nightWatchSegments_def)

theorem isNightUTC_hours_witness:
  "getUTCHours 1770854400000 = 0 \<and> getUTCHours 1770922800000 = 19 \<and>
   getUTCHours 1770926400000 = 20 \<and> getUTCHours 1770937200000 = 23 \<and>
   nightWatchSegments exampleTrack = [[(-12.10, 131.90), (-12.05, 132.00)]]"
proof -
  have h: "getUTCHours 1770854400000 = 0 \<and> getUTCHours 1770922800000 = 19 \<and>
     getUTCHours 1770926400000 = 20 \<and> getUTCHours 1770937200000 = 23"
    by (simp add: getUTCHours_def)
  from isNightUTC_hours [of 0 "wpAt 0 (-12.40) 130.80 1770854400000"
      "wpAt 1 (-12.10) 131.90 1770922800000" "wpAt 2 (-12.05) 132.00 1770926400000"
      "wpAt 3 (-11.90) 132.30 1770937200000"] h
  have "nightWatchSegments exampleTrack = [[(-12.10, 131.90), (-12.05, 132.00)]]"
    by (simp add: exampleTrack_def wpAt_def)
  with h show ?thesis by simp
qed

text \<open>
  Claim C6. The segments are a function of the waypoint list alone (the loop starts from
  an empty segment and an empty layer each time). They are the positions of the maximal
  runs of night waypoints that have at least two waypoints, in order: every segment has
  at least two points, every run holds night waypoints only and is a contiguous part of
  the list with no night waypoint next to it on either side, and, the list being in
  strictly increasing time order, the times along the concatenated runs increase
  strictly, so no waypoint is in two runs and the runs are ordered by start time.
\<close>

theorem nightWatchSegments_properties:
  assumes "sorted_wrt (<) (map time WAYPOINTS)"
  shows "let rs = filter (\<lambda>r. 2 \<le> length r) (nightRuns WAYPOINTS) in
           nightWatchSegments WAYPOINTS = map (map latlon) rs \<and>
           concat (nightRuns WAYPOINTS) = filter (\<lambda>wp. isNightUTC (time wp)) WAYPOINTS \<and>
           (\<forall>s\<in>set (nightWatchSegments WAYPOINTS). 2 \<le> length s) \<and>
           (\<forall>r\<in>set rs. (\<forall>wp\<in>set r. isNightUTC (time wp)) \<and>
              (\<exists>ps ss. WAYPOINTS = ps @ r @ ss \<and>
                 (ps = [] \<or> \<not> isNightUTC (time (last ps))) \<and>
                 (ss = [] \<or> \<not> isNightUTC (time (hd ss))))) \<and>
           sorted_wrt (<) (map time (concat rs)) \<and>
           distinct (concat rs) \<and>
           sorted_wrt (\<lambda>r r'. time (hd r) < time (hd r')) rs"
proof -
  let ?P = "\<lambda>wp. isNightUTC (time wp)"
  let ?rs = "filter (\<lambda>r. 2 \<le> length r) (nightRuns WAYPOINTS)"
  have eq: "nightWatchSegments WAYPOINTS = map (map latlon) ?rs"
    by (rule nightWatchSegments_runs)
  have len: "\<forall>s\<in>set (nightWatchSegments WAYPOINTS). 2 \<le> length s"
    unfolding eq by auto
  have cc: "concat (nightRuns WAYPOINTS) = filter ?P WAYPOINTS"
    by (simp add: nightRuns_def concat_runs)
  have mem: "\<forall>r\<in>set ?rs. (\<forall>wp\<in>set r. ?P wp) \<and>
      (\<exists>ps ss. WAYPOINTS = ps @ r @ ss \<and> (ps = [] \<or> \<not> ?P (last ps)) \<and>
         (ss = [] \<or> \<not> ?P (hd ss)))"
  proof
    fix r assume "r \<in> set ?rs"
    then have "r \<in> set (runs ?P WAYPOINTS)" by (simp add: nightRuns_def)
    from runs_member [OF this] show "(\<forall>wp\<in>set r. ?P wp) \<and>
      (\<exists>ps ss. WAYPOINTS = ps @ r @ ss \<and> (ps = [] \<or> \<not> ?P (last ps)) \<and>
         (ss = [] \<or> \<not> ?P (hd ss)))"
      by blast
  qed
  have s0: "sorted_wrt (\<lambda>a b. time a < time b) WAYPOINTS"
    using assms by (simp add: sorted_wrt_map)
  then have "sorted_wrt (\<lambda>a b. time a < time b) (filter ?P WAYPOINTS)"
    by (rule sorted_wrt_filter)
  then have "sorted_wrt (\<lambda>a b. time a < time b) (concat (nightRuns WAYPOINTS))"
    by (simp add: nightRuns_def concat_runs)
  then have s1: "sorted_wrt (\<lambda>a b. time a < time b) (concat ?rs)"
    by (rule sorted_wrt_concat_filter)
  then have srt: "sorted_wrt (<) (map time (concat ?rs))"
    by (simp add: sorted_wrt_map)
  then have "distinct (map time (concat ?rs))"
    using strict_sorted_iff by blast
  then have dis: "distinct (concat ?rs)" by (simp add: distinct_map)
  have "\<forall>r\<in>set ?rs. r \<noteq> []" by auto
  with s1 have hd: "sorted_wrt (\<lambda>r r'. time (hd r) < time (hd r')) ?rs"
    by (rule sorted_wrt_hd_concat)
  show ?thesis unfolding Let_def using eq cc len mem srt dis hd by blast
qed

theorem nightWatchSegments_properties_witness:
  "sorted_wrt (<) (map time exampleTrack) \<and>
   nightWatchSegments exampleTrack
     = map (map latlon) (filter (\<lambda>r. 2 \<le> length r) (nightRuns exampleTrack)) \<and>
   sorted_wrt (<) (map time (concat (filter (\<lambda>r. 2 \<le> length r) (nightRuns exampleTrack)))) \<and>
   distinct (concat (filter (\<lambda>r. 2 \<le> length r) (nightRuns exampleTrack)))"
proof -
  have h: "sorted_wrt (<) (map time exampleTrack)"
    by (simp add: exampleTrack_def wpAt_def)
  from nightWatchSegments_properties [OF h] h show ?thesis
    unfolding Let_def by blast
qed


section \<open>The highlight layers\<close>

lemma toggleLayer_mem:
  "k \<in> toggleLayer layersRef key on m \<longleftrightarrow>
     (if k = key \<and> layersRef key \<noteq> None then on else k \<in> m)"
  by (auto simp: toggleLayer_def split: option.splits)

lemma setLayerVisibility_mem:
  "k \<in> setLayerVisibility layersRef m hs \<longleftrightarrow>
     (if layersRef k \<noteq> None then flag hs k else k \<in> m)"
  by (cases k) (simp_all add: setLayerVisibility_def Let_def toggleLayer_mem)

lemma buildLayers_total: "buildLayers ts f6 wps k \<noteq> None"
  by (cases k) simp_all

lemma buildMap_visibility:
  "setLayerVisibility (buildLayers ts f6 wps) m hs = {k. flag hs k}"
  by (auto simp: setLayerVisibility_mem buildLayers_total)

lemma rendered_flagged:
  "rendered (buildLayers ts f6 wps) {k. flag hs k} =
     (if nightWatch hs then Polyline ` set (nightWatchSegments wps) else {}) \<union>
     (if topSpeed hs then set (topSpeedLayer ts) else {}) \<union>
     (if fastest6h hs then set (fastest6hLayer f6 wps) else {}) \<union>
     {Marker ev | key ev. flag hs key \<and> HIGHLIGHT_EVENTS key = Some ev}"
  (is "?L = ?R")
proof (rule set_eqI)
  fix g
  show "g \<in> ?L \<longleftrightarrow> g \<in> ?R"
  proof
    assume "g \<in> ?L"
    then obtain key layer where k: "flag hs key" "buildLayers ts f6 wps key = Some layer"
      "g \<in> set layer" by (auto simp: rendered_def)
    have event: "g \<in> ?R"
      if "buildLayers ts f6 wps key = Some (buildEventLayer key)"
    proof -
      from that k(2,3) obtain ev where "HIGHLIGHT_EVENTS key = Some ev" "g = Marker ev"
        by (auto simp: buildEventLayer_def split: option.splits)
      with k(1) have "g \<in> {Marker ev | key ev. flag hs key \<and> HIGHLIGHT_EVENTS key = Some ev}"
        by blast
      then show ?thesis by (rule UnI2)
    qed
    show "g \<in> ?R"
    proof (cases key)
      case NightWatch
      with k have "g \<in> (if nightWatch hs then Polyline ` set (nightWatchSegments wps) else {})"
        by auto
      then show ?thesis by (intro UnI1)
    next
      case TopSpeed
      with k have "g \<in> (if topSpeed hs then set (topSpeedLayer ts) else {})" by auto
      then show ?thesis by (intro UnI1 UnI2) 
    next
      case Fastest6h
      with k have "g \<in> (if fastest6h hs then set (fastest6hLayer f6 wps) else {})" by auto
      then show ?thesis by (intro UnI1 UnI2)
    next
      case Fish
      then show ?thesis by (intro event) simp
    next
      case Storm
      then show ?thesis by (intro event) simp
    next
      case ThursdayIsland
      then show ?thesis by (intro event) simp
    next
      case Diving
      then show ?thesis by (intro event) simp
    next
      case Cairns
      then show ?thesis by (intro event) simp
    qed
  next
    assume r: "g \<in> ?R"
    then consider "nightWatch hs \<and> g \<in> Polyline ` set (nightWatchSegments wps)"
      | "topSpeed hs \<and> g \<in> set (topSpeedLayer ts)"
      | "fastest6h hs \<and> g \<in> set (fastest6hLayer f6 wps)"
      | key ev where "flag hs key" "HIGHLIGHT_EVENTS key = Some ev" "g = Marker ev"
      by (auto split: if_splits)
    then show "g \<in> ?L"
    proof cases
      case 1
      then have "flag hs NightWatch \<and> buildLayers ts f6 wps NightWatch
          = Some (map Polyline (nightWatchSegments wps)) \<and>
          g \<in> set (map Polyline (nightWatchSegments wps))" by simp
      then show ?thesis unfolding rendered_def by blast
    next
      case 2
      then have "flag hs TopSpeed \<and> buildLayers ts f6 wps TopSpeed = Some (topSpeedLayer ts) \<and>
          g \<in> set (topSpeedLayer ts)" by simp
      then show ?thesis unfolding rendered_def by blast
    next
      case 3
      then have "flag hs Fastest6h \<and> buildLayers ts f6 wps Fastest6h
          = Some (fastest6hLayer f6 wps) \<and> g \<in> set (fastest6hLayer f6 wps)" by simp
      then show ?thesis unfolding rendered_def by blast
    next
      case 4
      then have "buildLayers ts f6 wps key = Some [Marker ev]"
        by (cases key) (simp_all add: buildEventLayer_def)
      with 4 have "flag hs key \<and> buildLayers ts f6 wps key = Some [Marker ev] \<and>
          g \<in> set [Marker ev]" by simp
      then show ?thesis unfolding rendered_def by blast
    qed
  qed
qed

text \<open>
  Claim C7, as amended. \<^verbatim>\<open>buildMap\<close> stores a layer group for every highlight key, an
  empty one when the key has no geometry (\<^verbatim>\<open>TOP_SPEED_1H\<close> or \<^verbatim>\<open>FASTEST_6H\<close> missing, no
  event for the key). After \<^verbatim>\<open>setLayerVisibility\<close>, whatever the map held before, the
  layer group of a key is on the map exactly when the key's flag is true: none with all
  flags false, all eight with all flags true, the empty groups included. What the map
  draws is the geometry of the keys whose flag is true: the night-watch polylines, the
  top-speed polyline and its label marker, the geometry of the fastest six hours, and
  the markers of the events.
\<close>

theorem setLayerVisibility_active:
  "(key \<in> setLayerVisibility (buildLayers ts f6 WAYPOINTS) m hs \<longleftrightarrow> flag hs key) \<and>
   ((\<forall>k. \<not> flag hs k) \<longrightarrow> setLayerVisibility (buildLayers ts f6 WAYPOINTS) m hs = {}) \<and>
   ((\<forall>k. flag hs k) \<longrightarrow> setLayerVisibility (buildLayers ts f6 WAYPOINTS) m hs = UNIV) \<and>
   rendered (buildLayers ts f6 WAYPOINTS) (setLayerVisibility (buildLayers ts f6 WAYPOINTS) m hs) =
     (if nightWatch hs then Polyline ` set (nightWatchSegments WAYPOINTS) else {}) \<union>
     (case ts of
        None \<Rightarrow> {}
      | Some t \<Rightarrow>
          if topSpeed hs
          then {Polyline [(fromLat t, fromLon t), (toLat t, toLon t)],
                Marker ((fromLat t + toLat t) / 2, (fromLon t + toLon t) / 2)}
          else {}) \<union>
     (if fastest6h hs then set (fastest6hLayer f6 WAYPOINTS) else {}) \<union>
     {Marker ev | k ev. flag hs k \<and> HIGHLIGHT_EVENTS k = Some ev} \<and>
   (buildLayers ts f6 WAYPOINTS TopSpeed = Some [] \<longleftrightarrow> ts = None) \<and>
   (buildLayers ts f6 WAYPOINTS Fastest6h = Some [] \<longleftrightarrow> f6 = None)"
proof -
  let ?L = "buildLayers ts f6 WAYPOINTS"
  have v: "setLayerVisibility ?L m hs = {k. flag hs k}" by (rule buildMap_visibility)
  have 1: "key \<in> setLayerVisibility ?L m hs \<longleftrightarrow> flag hs key" by (simp add: v)
  have 2: "(\<forall>k. \<not> flag hs k) \<longrightarrow> setLayerVisibility ?L m hs = {}" by (simp add: v)
  have 3: "(\<forall>k. flag hs k) \<longrightarrow> setLayerVisibility ?L m hs = UNIV" by (simp add: v)
  have t: "(if topSpeed hs then set (topSpeedLayer ts) else {}) =
      (case ts of
        None \<Rightarrow> {}
      | Some t \<Rightarrow>
          if topSpeed hs
          then {Polyline [(fromLat t, fromLon t), (toLat t, toLon t)],
                Marker ((fromLat t + toLat t) / 2, (fromLon t + toLon t) / 2)}
          else {})"
    by (auto simp: topSpeedLayer_def split: option.splits)
  have 4: "rendered ?L (setLayerVisibility ?L m hs) =
     (if nightWatch hs then Polyline ` set (nightWatchSegments WAYPOINTS) else {}) \<union>
     (case ts of
        None \<Rightarrow> {}
      | Some t \<Rightarrow>
          if topSpeed hs
          then {Polyline [(fromLat t, fromLon t), (toLat t, toLon t)],
                Marker ((fromLat t + toLat t) / 2, (fromLon t + toLon t) / 2)}
          else {}) \<union>
     (if fastest6h hs then set (fastest6hLayer f6 WAYPOINTS) else {}) \<union>
     {Marker ev | k ev. flag hs k \<and> HIGHLIGHT_EVENTS k = Some ev}"
    unfolding v rendered_flagged t ..
  have 5: "?L TopSpeed = Some [] \<longleftrightarrow> ts = None"
    by (simp add: topSpeedLayer_def split: option.splits)
  have 6: "?L Fastest6h = Some [] \<longleftrightarrow> f6 = None"
    by (simp add: fastest6hLayer_def Let_def split: option.splits)
  from 1 2 3 4 5 6 show ?thesis by blast
qed

theorem setLayerVisibility_active_witness:
  "Fish \<in> setLayerVisibility (buildLayers None None exampleTrack) {Storm}
      \<lparr>nightWatch = False, topSpeed = True, fastest6h = False, fish = True, storm = False,
       thursdayIsland = False, diving = False, cairns = False\<rparr> \<and>
   Storm \<notin> setLayerVisibility (buildLayers None None exampleTrack) {Storm}
      \<lparr>nightWatch = False, topSpeed = True, fastest6h = False, fish = True, storm = False,
       thursdayIsland = False, diving = False, cairns = False\<rparr> \<and>
   rendered (buildLayers None None exampleTrack)
     (setLayerVisibility (buildLayers None None exampleTrack) {Storm}
      \<lparr>nightWatch = False, topSpeed = True, fastest6h = False, fish = True, storm = False,
       thursdayIsland = False, diving = False, cairns = False\<rparr>)
     = {Marker (-10.938, 132.825)}"
proof -
  let ?L = "buildLayers None None exampleTrack"
  let ?hs = "\<lparr>nightWatch = False, topSpeed = True, fastest6h = False, fish = True, storm = False,
       thursdayIsland = False, diving = False, cairns = False\<rparr>"
  have a: "Fish \<in> setLayerVisibility ?L {Storm} ?hs"
    using setLayerVisibility_active [of Fish None None exampleTrack "{Storm}" ?hs] by simp
  have b: "Storm \<notin> setLayerVisibility ?L {Storm} ?hs"
    using setLayerVisibility_active [of Storm None None exampleTrack "{Storm}" ?hs] by simp
  have e: "{Marker ev | k ev. flag ?hs k \<and> HIGHLIGHT_EVENTS k = Some ev}
      = {Marker (-10.938, 132.825)}"
  proof (rule set_eqI)
    fix g
    show "g \<in> {Marker ev | k ev. flag ?hs k \<and> HIGHLIGHT_EVENTS k = Some ev}
        \<longleftrightarrow> g \<in> {Marker (-10.938, 132.825)}"
    proof
      assume "g \<in> {Marker ev | k ev. flag ?hs k \<and> HIGHLIGHT_EVENTS k = Some ev}"
      then obtain k ev where k: "g = Marker ev" "flag ?hs k" "HIGHLIGHT_EVENTS k = Some ev"
        by blast
      then show "g \<in> {Marker (-10.938, 132.825)}" by (cases k) simp_all
    next
      assume "g \<in> {Marker (-10.938, 132.825)}"
      then have "g = Marker (-10.938, 132.825) \<and> flag ?hs Fish \<and>
          HIGHLIGHT_EVENTS Fish = Some (-10.938, 132.825)" by simp
      then show "g \<in> {Marker ev | k ev. flag ?hs k \<and> HIGHLIGHT_EVENTS k = Some ev}" by blast
    qed
  qed
  from setLayerVisibility_active [of Fish None None exampleTrack "{Storm}" ?hs]
  have "rendered ?L (setLayerVisibility ?L {Storm} ?hs) =
      {Marker ev | k ev. flag ?hs k \<and> HIGHLIGHT_EVENTS k = Some ev}" by simp
  then have c: "rendered ?L (setLayerVisibility ?L {Storm} ?hs) = {Marker (-10.938, 132.825)}"
    by (simp only: e)
  from a b c show ?thesis by blast
qed

text \<open>
  Claim C7 as stated fails for a key without geometry: with \<^verbatim>\<open>TOP_SPEED_1H\<close> and
  \<^verbatim>\<open>FASTEST_6H\<close> missing their layer groups are empty, and with all flags true
  \<^verbatim>\<open>setLayerVisibility\<close> still puts them on the map: all eight layer groups are on it.
\<close>

theorem empty_layer_group_active:
  "buildLayers None None exampleTrack TopSpeed = Some [] \<and>
   buildLayers None None exampleTrack Fastest6h = Some [] \<and>
   TopSpeed \<in> setLayerVisibility (buildLayers None None exampleTrack) {}
      \<lparr>nightWatch = True, topSpeed = True, fastest6h = True, fish = True, storm = True,
       thursdayIsland = True, diving = True, cairns = True\<rparr> \<and>
   setLayerVisibility (buildLayers None None exampleTrack) {}
      \<lparr>nightWatch = True, topSpeed = True, fastest6h = True, fish = True, storm = True,
       thursdayIsland = True, diving = True, cairns = True\<rparr>
     = {NightWatch, TopSpeed, Fastest6h, Fish, Storm, ThursdayIsland, Diving, Cairns}"
proof -
  let ?hs = "\<lparr>nightWatch = True, topSpeed = True, fastest6h = True, fish = True, storm = True,
       thursdayIsland = True, diving = True, cairns = True\<rparr>"
  have f: "flag ?hs k" for k by (cases k) simp_all
  have u: "k \<in> {NightWatch, TopSpeed, Fastest6h, Fish, Storm, ThursdayIsland, Diving, Cairns}"
    for k by (cases k) simp_all
  have "setLayerVisibility (buildLayers None None exampleTrack) {} ?hs = {k. flag ?hs k}"
    by (rule buildMap_visibility)
  also have "\<dots> = {NightWatch, TopSpeed, Fastest6h, Fish, Storm, ThursdayIsland, Diving, Cairns}"
    using f u by blast
  finally have s: "setLayerVisibility (buildLayers None None exampleTrack) {} ?hs
      = {NightWatch, TopSpeed, Fastest6h, Fish, Storm, ThursdayIsland, Diving, Cairns}" .
  have t: "TopSpeed \<in> setLayerVisibility (buildLayers None None exampleTrack) {} ?hs"
    unfolding s by simp
  have e: "buildLayers None None exampleTrack TopSpeed = Some []"
    "buildLayers None None exampleTrack Fastest6h = Some []"
    by (simp_all add: topSpeedLayer_def fastest6hLayer_def)
  from e t s show ?thesis by blast
qed


end
